theory Spec2Isabelle
  imports Complex_Main
begin

section \<open>Build-parameter optimisation and OpenMM loss of sidechainnet\<close>

text \<open>
  The development embeds two modules of the repository:
  \<^item> \<^verbatim>\<open>research/build_parameter_optim/optimize_build_params.py\<close>
    (class \<^verbatim>\<open>BuildParamOptimizer\<close>), and
  \<^item> \<^verbatim>\<open>research/openfold/openfold_loss.py\<close> (function \<^verbatim>\<open>openmm_loss\<close>).

  Tensors of floating point numbers are idealised as lists of real numbers, so every
  statement below is about exact real arithmetic: rounding, infinities and NaN are
  outside the model.
\<close>

subsection \<open>Tensors and the torch operations the code calls\<close>

text \<open>
  A tensor is its flat list of values together with the \<^verbatim>\<open>requires_grad\<close> flag.
  An operation on tensors yields a tensor that requires gradient as soon as one
  of its arguments does, as in torch.
\<close>

record tensor =
  vals :: "real list"
  requires_grad :: bool

text \<open>\<^verbatim>\<open>t.requires_grad_()\<close>, returning the marked tensor.\<close>

definition set_requires_grad :: "tensor \<Rightarrow> tensor" where
  "set_requires_grad t = t\<lparr>requires_grad := True\<rparr>"

text \<open>
  \<^verbatim>\<open>torch.atan2\<close> on one pair of components: the angle in \<open>(-\<pi>, \<pi>]\<close> of the point with
  ordinate \<open>y\<close> and abscissa \<open>x\<close>, and 0 at the origin. The tensor operations below work
  component by component on tensors of one shape.
\<close>

definition atan2 :: "real \<Rightarrow> real \<Rightarrow> real" where
  "atan2 y x =
     (if 0 < x then arctan (y / x)
      else if x < 0 \<and> 0 \<le> y then arctan (y / x) + pi
      else if x < 0 \<and> y < 0 then arctan (y / x) - pi
      else if 0 < y then pi / 2
      else if y < 0 then - (pi / 2)
      else 0)"

definition torch_atan2 :: "tensor \<Rightarrow> tensor \<Rightarrow> tensor" where
  "torch_atan2 s c =
     \<lparr>vals = map2 atan2 (vals s) (vals c),
      requires_grad = (requires_grad s \<or> requires_grad c)\<rparr>"

definition torch_sin :: "tensor \<Rightarrow> tensor" where
  "torch_sin t = \<lparr>vals = map sin (vals t), requires_grad = requires_grad t\<rparr>"

definition torch_cos :: "tensor \<Rightarrow> tensor" where
  "torch_cos t = \<lparr>vals = map cos (vals t), requires_grad = requires_grad t\<rparr>"

subsection \<open>The parameter store\<close>

text \<open>
  \<^verbatim>\<open>build_params\<close> is a dictionary from the root atoms \<^verbatim>\<open>'N'\<close>, \<^verbatim>\<open>'CA'\<close>,
  \<^verbatim>\<open>'C'\<close> to a dictionary from parameter names to tensors. The three root
  atoms are always present (the table comes from \<^verbatim>\<open>get_all_atom_build_params\<close>);
  a parameter name may be missing, and reading it then raises \<^verbatim>\<open>KeyError\<close>.
\<close>

datatype root_atom = N | CA | C

datatype param_key = bond_lengths | thetas | chis | sthetas | cthetas | schis | cchis

type_synonym build_params = "root_atom \<Rightarrow> param_key \<rightharpoonup> tensor"

datatype error =
  KeyError | IndexError | TypeError | UnboundLocalError | AttributeError | AssertionError |
  ZeroDivisionError | ValueError

definition getitem :: "build_params \<Rightarrow> root_atom \<Rightarrow> param_key \<Rightarrow> error + tensor" where
  "getitem bp r k = (case bp r k of None \<Rightarrow> Inl KeyError | Some t \<Rightarrow> Inr t)"

definition setitem :: "build_params \<Rightarrow> root_atom \<Rightarrow> param_key \<Rightarrow> tensor \<Rightarrow> build_params" where
  "setitem bp r k t = bp(r := (bp r)(k \<mapsto> t))"

text \<open>
  \<^verbatim>\<open>optimized_params[i]\<close>: the argument may be \<^verbatim>\<open>None\<close> (then subscripting
  raises \<^verbatim>\<open>TypeError\<close>) or a list (then an index past the end raises
  \<^verbatim>\<open>IndexError\<close>).
\<close>

definition subscript :: "tensor list option \<Rightarrow> nat \<Rightarrow> error + tensor" where
  "subscript ps i =
     (case ps of
        None \<Rightarrow> Inl TypeError
      | Some l \<Rightarrow> if i < length l then Inr (l ! i) else Inl IndexError)"

subsection \<open>\<^verbatim>\<open>BuildParamOptimizer\<close>: construction, extraction, scatter\<close>

text \<open>
  The fields of the optimiser object. \<^verbatim>\<open>opt\<close> is the state of the torch
  optimiser, of an abstract type; it is unset until \<^verbatim>\<open>optimize\<close> runs, and so is
  \<^verbatim>\<open>build_params_history\<close>, which \<^verbatim>\<open>optimize\<close> assigns before it reads it. The
  protein, which the constructor prepares and the loops rebuild, is part of the
  collaborators below.
\<close>

record 'o optimizer =
  build_params :: build_params
  starting_build_params :: build_params
  keys_to_optimize :: "param_key list"
  losses :: "real list"
  params :: "tensor list"
  build_params_history :: "tensor list list"
  opt :: "'o option"

definition to_sin_cos :: "tensor \<Rightarrow> tensor \<times> tensor" where
  "to_sin_cos angles = (torch_sin angles, torch_cos angles)"

text \<open>
  \<^verbatim>\<open>create_param_list_from_build_params\<close>: the inner loop over
  \<^verbatim>\<open>self.keys_to_optimize\<close> for one root atom, then the outer loop over the
  root atoms. \<^verbatim>\<open>requires_grad_()\<close> marks the tensor held by the store, and the
  list receives that same tensor.
\<close>

fun create_keys ::
  "root_atom \<Rightarrow> param_key list \<Rightarrow> build_params \<times> tensor list \<Rightarrow> error + build_params \<times> tensor list"
where
  "create_keys r [] acc = Inr acc"
| "create_keys r (k # ks) (bp, ps) =
     (case getitem bp r k of
        Inl e \<Rightarrow> Inl e
      | Inr t \<Rightarrow>
          create_keys r ks (setitem bp r k (set_requires_grad t), ps @ [set_requires_grad t]))"

fun create_roots ::
  "root_atom list \<Rightarrow> param_key list \<Rightarrow> build_params \<times> tensor list \<Rightarrow> error + build_params \<times> tensor list"
where
  "create_roots [] ks acc = Inr acc"
| "create_roots (r # rs) ks acc =
     (case create_keys r ks acc of
        Inl e \<Rightarrow> Inl e
      | Inr acc' \<Rightarrow> create_roots rs ks acc')"

definition create_param_list_from_build_params ::
  "param_key list \<Rightarrow> build_params \<Rightarrow> error + build_params \<times> tensor list"
where
  "create_param_list_from_build_params ks bp = create_roots [N, CA, C] ks (bp, [])"

text \<open>
  \<^verbatim>\<open>update_complete_build_params_with_optimized_params\<close>: the running index
  \<^verbatim>\<open>i\<close> is threaded through both loops.
\<close>

fun update_keys ::
  "root_atom \<Rightarrow> param_key list \<Rightarrow> tensor list option \<Rightarrow> build_params \<times> nat \<Rightarrow> error + build_params \<times> nat"
where
  "update_keys r [] ps acc = Inr acc"
| "update_keys r (k # ks) ps (bp, i) =
     (case subscript ps i of
        Inl e \<Rightarrow> Inl e
      | Inr p \<Rightarrow>
          update_keys r ks ps
            (if k = thetas then
               (case to_sin_cos p of (s, c) \<Rightarrow> setitem (setitem bp r sthetas s) r cthetas c)
             else if k = chis then
               (case to_sin_cos p of (s, c) \<Rightarrow> setitem (setitem bp r schis s) r cchis c)
             else setitem bp r k p,
             i + 1))"

fun update_roots ::
  "root_atom list \<Rightarrow> param_key list \<Rightarrow> tensor list option \<Rightarrow> build_params \<times> nat \<Rightarrow> error + build_params \<times> nat"
where
  "update_roots [] ks ps acc = Inr acc"
| "update_roots (r # rs) ks ps acc =
     (case update_keys r ks ps acc of
        Inl e \<Rightarrow> Inl e
      | Inr acc' \<Rightarrow> update_roots rs ks ps acc')"

definition update_complete_build_params_with_optimized_params ::
  "param_key list \<Rightarrow> build_params \<Rightarrow> tensor list option \<Rightarrow> error + build_params"
where
  "update_complete_build_params_with_optimized_params ks bp optimized_params =
     (case update_roots [N, CA, C] ks optimized_params (bp, 0) of
        Inl e \<Rightarrow> Inl e
      | Inr (bp', i) \<Rightarrow> Inr bp')"

text \<open>
  \<^verbatim>\<open>__init__\<close>, given the table \<open>defaults\<close> that \<^verbatim>\<open>get_all_atom_build_params\<close>
  returns. The copy \<^verbatim>\<open>_starting_build_params\<close> is taken first. The list of keys is built
  from the three flags, in this order. For each root atom the raw angle tensors of the
  selected angular keys are created from the stored sines and cosines, and last the
  parameter list is extracted.
\<close>

definition init_keys :: "bool \<Rightarrow> bool \<Rightarrow> bool \<Rightarrow> param_key list" where
  "init_keys opt_bond_lengths opt_thetas opt_chis =
     (if opt_bond_lengths then [bond_lengths] else []) @
     (if opt_thetas then [thetas] else []) @
     (if opt_chis then [chis] else [])"

definition init_angle ::
  "build_params \<Rightarrow> root_atom \<Rightarrow> param_key \<Rightarrow> param_key \<Rightarrow> param_key \<Rightarrow> error + build_params"
where
  "init_angle bp r k sk ck =
     (case getitem bp r sk of
        Inl e \<Rightarrow> Inl e
      | Inr s \<Rightarrow>
          (case getitem bp r ck of
             Inl e \<Rightarrow> Inl e
           | Inr c \<Rightarrow> Inr (setitem bp r k (torch_atan2 s c))))"

fun init_angles :: "root_atom list \<Rightarrow> param_key list \<Rightarrow> build_params \<Rightarrow> error + build_params" where
  "init_angles [] ks bp = Inr bp"
| "init_angles (r # rs) ks bp =
     (case (if thetas \<in> set ks then init_angle bp r thetas sthetas cthetas else Inr bp) of
        Inl e \<Rightarrow> Inl e
      | Inr bp1 \<Rightarrow>
          (case (if chis \<in> set ks then init_angle bp1 r chis schis cchis else Inr bp1) of
             Inl e \<Rightarrow> Inl e
           | Inr bp2 \<Rightarrow> init_angles rs ks bp2))"

definition init :: "build_params \<Rightarrow> bool \<Rightarrow> bool \<Rightarrow> bool \<Rightarrow> error + 'o optimizer" where
  "init defaults opt_bond_lengths opt_thetas opt_chis =
     (let ks = init_keys opt_bond_lengths opt_thetas opt_chis in
      case init_angles [N, CA, C] ks defaults of
        Inl e \<Rightarrow> Inl e
      | Inr bp \<Rightarrow>
          (case create_param_list_from_build_params ks bp of
             Inl e \<Rightarrow> Inl e
           | Inr (bp', ps) \<Rightarrow>
               Inr \<lparr>build_params = bp',
                    starting_build_params = defaults,
                    keys_to_optimize = ks,
                    losses = [],
                    params = ps,
                    build_params_history = [],
                    opt = None\<rparr>))"

subsection \<open>\<^verbatim>\<open>optimize\<close>: the external collaborators\<close>

text \<open>
  The structure builder, the energy function and the torch optimisers are not part of
  the repository; they enter as parameters.
  \<^item> \<open>energy_loss ext bp\<close> is \<^verbatim>\<open>p.fastbuild(build_params=bp, add_hydrogens=True,
    inplace=True)\<close> followed by \<^verbatim>\<open>self.energy_loss.apply(p, p.hcoords)\<close> for the
    fixed protein \<^verbatim>\<open>p\<close>, read as a number.
  \<^item> \<open>new_optimizer ext name lr to_optim\<close> is the optimiser object created for the
    strategy \<open>name\<close> (for the first-order strategies together with its
    \<^verbatim>\<open>ReduceLROnPlateau\<close> scheduler).
  \<^item> \<open>first_order_step ext o bp ps lossnp\<close> is \<^verbatim>\<open>self.opt.step()\<close> followed
    by \<^verbatim>\<open>scheduler.step(lossnp)\<close>: the new optimiser state and, for each position of
    the parameter list, the data written into that tensor.
  \<^item> \<open>lbfgs_step ext o bp ps\<close> is \<^verbatim>\<open>self.opt.step(closure)\<close> after its first
    evaluation of the closure: the new optimiser state and the successive overwrites of
    the parameter data, the closure being evaluated again after each of them.
  \<^item> \<open>refuses ext name lr to_optim\<close> tells whether the constructor of the optimiser
    refuses its arguments for a reason other than an empty parameter list, such as a
    negative learning rate.
  The optimisers overwrite the data of the parameter tensors in place; the length of
  the parameter list and the gradient flags do not change.
\<close>

record 'o externals =
  energy_loss :: "build_params \<Rightarrow> real"
  new_optimizer :: "string \<Rightarrow> real \<Rightarrow> tensor list \<Rightarrow> 'o"
  first_order_step :: "'o \<Rightarrow> build_params \<Rightarrow> tensor list \<Rightarrow> real \<Rightarrow> 'o \<times> (nat \<Rightarrow> real list)"
  lbfgs_step :: "'o \<Rightarrow> build_params \<Rightarrow> tensor list \<Rightarrow> 'o \<times> (nat \<Rightarrow> real list) list"
  refuses :: "string \<Rightarrow> real \<Rightarrow> tensor list \<Rightarrow> bool"

text \<open>
  \<^verbatim>\<open>torch.optim.LBFGS\<close>, \<^verbatim>\<open>torch.optim.Adam\<close> and \<^verbatim>\<open>torch.optim.SGD\<close> raise
  \<^verbatim>\<open>ValueError\<close> when the list of parameters is empty, which is the case when no group
  is selected for optimisation, and when they refuse an argument.
\<close>

definition constructor_fails :: "'o externals \<Rightarrow> string \<Rightarrow> real \<Rightarrow> tensor list \<Rightarrow> bool" where
  "constructor_fails ext name lr to_optim = (to_optim = [] \<or> refuses ext name lr to_optim)"

definition detach :: "tensor \<Rightarrow> tensor" where
  "detach t = t\<lparr>requires_grad := False\<rparr>"

definition set_data :: "(nat \<Rightarrow> real list) \<Rightarrow> tensor list \<Rightarrow> tensor list" where
  "set_data new ps = map (\<lambda>(i, t). t\<lparr>vals := new i\<rparr>) (enumerate 0 ps)"

text \<open>
  The tensors of \<^verbatim>\<open>self.params\<close> are the very objects stored under the raw keys of
  \<^verbatim>\<open>self.build_params\<close> (extraction appends the stored tensor, the scatter of
  \<^verbatim>\<open>to_optim\<close> stores the list entry), so an overwrite in place is seen through the
  store as well. \<open>slots\<close> lists the (root atom, key) pairs in the order of the two
  loops, and \<open>write_through\<close> makes the sharing explicit.
\<close>

definition slots :: "param_key list \<Rightarrow> (root_atom \<times> param_key) list" where
  "slots ks = concat (map (\<lambda>r. map (\<lambda>k. (r, k)) ks) [N, CA, C])"

definition write_through :: "param_key list \<Rightarrow> build_params \<Rightarrow> tensor list \<Rightarrow> build_params" where
  "write_through ks bp ps = fold (\<lambda>((r, k), p) b. setitem b r k p) (zip (slots ks) ps) bp"

definition overwrite :: "(nat \<Rightarrow> real list) \<Rightarrow> 'o optimizer \<Rightarrow> 'o optimizer" where
  "overwrite new s =
     s\<lparr>params := set_data new (params s),
       build_params := write_through (keys_to_optimize s) (build_params s) (set_data new (params s))\<rparr>"

subsection \<open>\<^verbatim>\<open>optimize\<close>: the LBFGS loop\<close>

definition closure :: "'o externals \<Rightarrow> 'o optimizer \<Rightarrow> error + 'o optimizer \<times> real" where
  "closure ext s =
     (case update_complete_build_params_with_optimized_params
             (keys_to_optimize s) (build_params s) (Some (params s)) of
        Inl e \<Rightarrow> Inl e
      | Inr bp \<Rightarrow> Inr (s\<lparr>build_params := bp\<rparr>, energy_loss ext bp))"

fun lbfgs_evals ::
  "'o externals \<Rightarrow> (nat \<Rightarrow> real list) list \<Rightarrow> 'o optimizer \<Rightarrow> error + 'o optimizer"
where
  "lbfgs_evals ext [] s = Inr s"
| "lbfgs_evals ext (new # rest) s =
     (case closure ext (overwrite new s) of
        Inl e \<Rightarrow> Inl e
      | Inr (s', loss) \<Rightarrow> lbfgs_evals ext rest s')"

definition lbfgs_body :: "'o externals \<Rightarrow> 'o optimizer \<Rightarrow> error + 'o optimizer" where
  "lbfgs_body ext s =
     (let s1 = s\<lparr>build_params_history := build_params_history s @ [map detach (params s)]\<rparr> in
      case opt s1 of
        None \<Rightarrow> Inl AttributeError
      | Some o1 \<Rightarrow>
          (case closure ext s1 of
             Inl e \<Rightarrow> Inl e
           | Inr (s2, loss) \<Rightarrow>
               (case lbfgs_step ext o1 (build_params s2) (params s2) of
                  (o2, plan) \<Rightarrow>
                    (case lbfgs_evals ext plan s2 of
                       Inl e \<Rightarrow> Inl e
                     | Inr s3 \<Rightarrow> Inr (s3\<lparr>opt := Some o2\<rparr>)))))"

fun lbfgs_loop :: "'o externals \<Rightarrow> nat \<Rightarrow> 'o optimizer \<Rightarrow> error + 'o optimizer" where
  "lbfgs_loop ext 0 s = Inr s"
| "lbfgs_loop ext (Suc n) s =
     (case lbfgs_body ext s of
        Inl e \<Rightarrow> Inl e
      | Inr s' \<Rightarrow> lbfgs_loop ext n s')"

subsection \<open>\<^verbatim>\<open>optimize\<close>: the SGD/Adam loop\<close>

definition patience :: nat where
  "patience = 20"

definition epsilon :: real where
  "epsilon = 1 / 10000"

text \<open>
  The local variables of the loop, next to the object itself. \<open>stdout\<close> collects what
  the loop prints.
\<close>

record 'o loop_state =
  self :: "'o optimizer"
  best_loss :: "real option"
  best_params_so_far :: "tensor list option"
  counter :: nat
  stdout :: "string list"

datatype 'a flow = Continue 'a | Break 'a

text \<open>
  The end of an iteration that did not break: \<^verbatim>\<open>self.losses.append(lossnp)\<close>,
  \<^verbatim>\<open>self.opt.step()\<close>, \<^verbatim>\<open>scheduler.step(lossnp)\<close>.
\<close>

definition sgd_step :: "'o externals \<Rightarrow> real \<Rightarrow> 'o optimizer \<Rightarrow> error + 'o optimizer" where
  "sgd_step ext lossnp s =
     (let s1 = s\<lparr>losses := losses s @ [lossnp]\<rparr> in
      case opt s1 of
        None \<Rightarrow> Inl AttributeError
      | Some o1 \<Rightarrow>
          (case first_order_step ext o1 (build_params s1) (params s1) lossnp of
             (o2, new) \<Rightarrow> Inr ((overwrite new s1)\<lparr>opt := Some o2\<rparr>)))"

definition sgd_body :: "'o externals \<Rightarrow> 'o loop_state \<Rightarrow> error + 'o loop_state flow" where
  "sgd_body ext st =
     (let s = self st;
          to_optim = params s;
          s1 = s\<lparr>build_params_history := build_params_history s @ [map detach to_optim]\<rparr>
      in
      case update_complete_build_params_with_optimized_params
             (keys_to_optimize s1) (build_params s1) (Some to_optim) of
        Inl e \<Rightarrow> Inl e
      | Inr bp \<Rightarrow>
          (let s2 = s1\<lparr>build_params := bp\<rparr>;
               lossnp = energy_loss ext bp
           in
           if (case best_loss st of
                 None \<Rightarrow> True
               | Some b \<Rightarrow> lossnp < b \<and> \<bar>b - lossnp\<bar> > epsilon)
           then
             (case sgd_step ext lossnp s2 of
                Inl e \<Rightarrow> Inl e
              | Inr s3 \<Rightarrow>
                  Inr (Continue (st\<lparr>self := s3, best_loss := Some lossnp,
                                    best_params_so_far := Some to_optim, counter := 0\<rparr>)))
           else if counter st > patience then
             Inr (Break (st\<lparr>self := s2, stdout := stdout st @ [''Stopping early.'']\<rparr>))
           else if counter st < patience then
             (case sgd_step ext lossnp s2 of
                Inl e \<Rightarrow> Inl e
              | Inr s3 \<Rightarrow> Inr (Continue (st\<lparr>self := s3, counter := counter st + 1\<rparr>)))
           else
             (case sgd_step ext lossnp s2 of
                Inl e \<Rightarrow> Inl e
              | Inr s3 \<Rightarrow> Inr (Continue (st\<lparr>self := s3\<rparr>)))))"

fun sgd_loop :: "'o externals \<Rightarrow> nat \<Rightarrow> 'o loop_state \<Rightarrow> error + 'o loop_state" where
  "sgd_loop ext 0 st = Inr st"
| "sgd_loop ext (Suc n) st =
     (case sgd_body ext st of
        Inl e \<Rightarrow> Inl e
      | Inr (Break st') \<Rightarrow> Inr st'
      | Inr (Continue st') \<Rightarrow> sgd_loop ext n st')"

text \<open>The state in which the SGD/Adam loop is entered.\<close>

definition sgd_start :: "'o externals \<Rightarrow> 'o optimizer \<Rightarrow> string \<Rightarrow> real \<Rightarrow> 'o loop_state" where
  "sgd_start ext s name lr =
     \<lparr>self = s\<lparr>build_params_history := [params s],
                opt := Some (new_optimizer ext name lr (params s))\<rparr>,
      best_loss = None,
      best_params_so_far = None,
      counter = 0,
      stdout = []\<rparr>"

subsection \<open>\<^verbatim>\<open>optimize\<close>\<close>

text \<open>
  The local variable \<^verbatim>\<open>best_params_so_far\<close> is assigned in the SGD/Adam branch
  only. After the branches it is either unbound (\<open>None\<close>) or bound to a value, which
  may itself be Python's \<^verbatim>\<open>None\<close>. Reading it unbound raises
  \<^verbatim>\<open>UnboundLocalError\<close>. The plot written between the loop and the final scatter
  has no effect on the result and is left out. The result is the updated object
  together with the returned dictionary \<^verbatim>\<open>self.build_params\<close>. In the first two
  branches the optimiser is constructed before the loop, and the call ends there with
  \<^verbatim>\<open>ValueError\<close> when the constructor fails.
\<close>

definition optimize ::
  "'o externals \<Rightarrow> 'o optimizer \<Rightarrow> string \<Rightarrow> real \<Rightarrow> nat \<Rightarrow> error + 'o optimizer \<times> build_params"
where
  "optimize ext s name lr steps =
     (case
        (if name = ''LBFGS'' then
           (if constructor_fails ext name lr (params s) then Inl ValueError
            else
              (case lbfgs_loop ext steps
                      (s\<lparr>build_params_history := [params s],
                         opt := Some (new_optimizer ext name lr (params s))\<rparr>) of
                 Inl e \<Rightarrow> Inl e
               | Inr s' \<Rightarrow> Inr (s', None)))
         else if name = ''SGD'' \<or> name = ''adam'' then
           (if constructor_fails ext name lr (params s) then Inl ValueError
            else
              (case sgd_loop ext steps (sgd_start ext s name lr) of
                 Inl e \<Rightarrow> Inl e
               | Inr st \<Rightarrow> Inr (self st, Some (best_params_so_far st))))
         else Inr (s\<lparr>build_params_history := [params s]\<rparr>, None))
      of
        Inl e \<Rightarrow> Inl e
      | Inr (s', local_best) \<Rightarrow>
          (case local_best of
             None \<Rightarrow> Inl UnboundLocalError
           | Some best \<Rightarrow>
               (case update_complete_build_params_with_optimized_params
                       (keys_to_optimize s') (build_params s') best of
                  Inl e \<Rightarrow> Inl e
                | Inr bp \<Rightarrow> Inr (s'\<lparr>build_params := bp\<rparr>, bp))))"

subsection \<open>\<^verbatim>\<open>openmm_loss\<close>\<close>

text \<open>
  A protein carries its sequence, its mask, its identifier and its coordinates, without
  and with hydrogens. One sample of the batch is what
  \<^verbatim>\<open>generate_scnproteins_from_model_reps\<close> reads for one index of the model input and
  output: the sequence string of the residue types, the mask string, the predicted and
  the ground-truth coordinates in the 15-atom layout, and the name when the input has one.
\<close>

record scn_protein =
  seq :: string
  seq_mask :: string
  ident :: string
  coords :: "real list"
  hcoords :: "real list"

record sample =
  sample_seq :: string
  sample_mask :: string
  sample_name :: "string option"
  pred_coords :: "real list"
  true_coords :: "real list"

record model_reps =
  final_atom_positions_shape :: "nat list"
  samples :: "sample list"

text \<open>
  The collaborators of the loss: \<open>hydrogenate\<close> gives the coordinates that
  \<^verbatim>\<open>protein.add_hydrogens(add_to_heavy_atoms=True)\<close> stores in \<^verbatim>\<open>hcoords\<close>, and
  \<open>openmm_energy p\<close> is \<^verbatim>\<open>loss.apply(protein, protein.hcoords, force_scaling,
  force_clipping_val)\<close>.
\<close>

record loss_externals =
  hydrogenate :: "scn_protein \<Rightarrow> real list"
  openmm_energy :: "scn_protein \<Rightarrow> real"

record loss_options =
  scale_by_length :: bool
  modified_sigmoid :: bool
  modified_sigmoid_params :: "real \<times> real \<times> real \<times> real"
  add_relu :: bool

definition add_hydrogens :: "loss_externals \<Rightarrow> scn_protein \<Rightarrow> scn_protein" where
  "add_hydrogens ext p = p\<lparr>hcoords := hydrogenate ext p\<rparr>"

text \<open>
  Modelled from the spec: \<^verbatim>\<open>SCNProtein.__len__\<close> is not among the sources; the spec
  divides by the protein's residue count, which is the length of its sequence.
\<close>

definition len :: "scn_protein \<Rightarrow> nat" where
  "len p = length (seq p)"

text \<open>
  One round of the generator: the call \<^verbatim>\<open>SCNProtein(coordinates=coords15, sequence=seq,
  mask=seq_mask, id=ident)\<close>, then the test for an unknown residue.
\<close>

definition make_protein :: "bool \<Rightarrow> sample \<Rightarrow> scn_protein" where
  "make_protein ground_truth x =
     \<lparr>seq = sample_seq x,
      seq_mask = sample_mask x,
      ident = (case sample_name x of None \<Rightarrow> ''prot'' | Some n \<Rightarrow> n),
      coords = (if ground_truth then true_coords x else pred_coords x),
      hcoords = []\<rparr>"

definition generate_one :: "bool \<Rightarrow> sample \<Rightarrow> scn_protein option" where
  "generate_one ground_truth x =
     (let protein = make_protein ground_truth x
      in if CHR ''X'' \<in> set (seq protein) then None else Some protein)"

definition generate_scnproteins_from_model_reps :: "model_reps \<Rightarrow> bool \<Rightarrow> scn_protein option list" where
  "generate_scnproteins_from_model_reps reps ground_truth =
     map (generate_one ground_truth) (samples reps)"

text \<open>
  The body of the loop over the proteins, for a protein that is not skipped: the
  transformed energy and the raw energy. \<^verbatim>\<open>relu_component\<close> is computed after the
  division by the length and before the sigmoid, and is read only under \<^verbatim>\<open>add_relu\<close>.
  The sigmoid parameters are Python numbers, so \<^verbatim>\<open>1/a\<close> raises
  \<^verbatim>\<open>ZeroDivisionError\<close> for \<open>a = 0\<close>. The other divisions are divisions of a tensor:
  by a zero length or a zero \<open>c\<close> they give an infinite or undefined float, which real
  numbers do not have, so the model is meaningful only for a protein with at least one
  residue and for \<open>c \<noteq> 0\<close>.
\<close>

definition protein_loss ::
  "loss_externals \<Rightarrow> loss_options \<Rightarrow> scn_protein \<Rightarrow> error + real \<times> real"
where
  "protein_loss ext opts protein =
     (let protein_energy = openmm_energy ext protein;
          protein_energy_raw = protein_energy;
          protein_energy =
            (if scale_by_length opts then protein_energy / real (len protein) else protein_energy);
          relu_component = protein_energy * (1 / 10 ^ 12)
      in
      case (if modified_sigmoid opts then
              (case modified_sigmoid_params opts of
                 (a, b, c, d) \<Rightarrow>
                   if a = 0 then Inl ZeroDivisionError
                   else Inr ((1 / a + exp (- (d * protein_energy + b) / c)) powi (- 1) - (a - 1)))
            else Inr protein_energy) of
        Inl e \<Rightarrow> Inl e
      | Inr protein_energy \<Rightarrow>
          Inr (if add_relu opts then protein_energy + relu_component else protein_energy,
               protein_energy_raw))"

fun energy_loop ::
  "loss_externals \<Rightarrow> loss_options \<Rightarrow> scn_protein list \<Rightarrow> real \<times> real \<Rightarrow> error + real \<times> real"
where
  "energy_loop ext opts [] acc = Inr acc"
| "energy_loop ext opts (protein # rest) (total_energy, total_energy_raw) =
     (if CHR ''X'' \<in> set (seq protein) then
        energy_loop ext opts rest (total_energy, total_energy_raw)
      else
        (case protein_loss ext opts protein of
           Inl e \<Rightarrow> Inl e
         | Inr (protein_energy, protein_energy_raw) \<Rightarrow>
             energy_loop ext opts rest
               (total_energy + protein_energy, total_energy_raw + protein_energy_raw)))"

text \<open>
  \<^verbatim>\<open>openmm_loss\<close> returns the total transformed energy, the proteins without
  hydrogens, the ground-truth proteins and the total raw energy. The two assertions
  read the last two dimensions of \<^verbatim>\<open>final_atom_positions\<close>.
\<close>

definition openmm_loss ::
  "loss_externals \<Rightarrow> loss_options \<Rightarrow> model_reps \<Rightarrow>
     error + real \<times> scn_protein list \<times> scn_protein list \<times> real"
where
  "openmm_loss ext opts reps =
     (let sh = final_atom_positions_shape reps in
      if length sh < 1 then Inl IndexError
      else if sh ! (length sh - 1) \<noteq> 3 then Inl AssertionError
      else if length sh < 2 then Inl IndexError
      else if sh ! (length sh - 2) \<noteq> 37 then Inl AssertionError
      else
        (let scn_proteins =
               List.map_filter (\<lambda>p. p) (generate_scnproteins_from_model_reps reps False);
             scn_proteins_gt =
               List.map_filter (\<lambda>p. p) (generate_scnproteins_from_model_reps reps True);
             scn_proteins_no_hy = scn_proteins;
             scn_proteins = map (add_hydrogens ext) scn_proteins
         in
         case energy_loop ext opts scn_proteins (0, 0) of
           Inl e \<Rightarrow> Inl e
         | Inr (total_energy, total_energy_raw) \<Rightarrow>
             Inr (total_energy, scn_proteins_no_hy, scn_proteins_gt, total_energy_raw)))"

subsection \<open>Notions used by the statements\<close>

text \<open>
  What the scatter leaves in the store for the list entry \<open>p\<close> at the slot of root atom
  \<open>r\<close> and key \<open>k\<close>: the entry itself for bond lengths, its sine and cosine for the
  two angular keys.
\<close>

definition written :: "build_params \<Rightarrow> root_atom \<times> param_key \<Rightarrow> tensor \<Rightarrow> bool" where
  "written bp sl p =
     (case sl of
        (r, k) \<Rightarrow>
          if k = thetas then bp r sthetas = Some (torch_sin p) \<and> bp r cthetas = Some (torch_cos p)
          else if k = chis then bp r schis = Some (torch_sin p) \<and> bp r cchis = Some (torch_cos p)
          else bp r k = Some p)"

text \<open>The keys of the store that the scatter assigns for a key of the list.\<close>

definition targets :: "param_key \<Rightarrow> param_key set" where
  "targets k =
     (if k = thetas then {sthetas, cthetas}
      else if k = chis then {schis, cchis}
      else {k})"

text \<open>
  The lists of keys that the constructor can produce: no key twice, and only the three
  optimisable ones.
\<close>

definition selectable :: "param_key list \<Rightarrow> bool" where
  "selectable ks = (distinct ks \<and> set ks \<subseteq> {bond_lengths, thetas, chis})"

text \<open>The assignment made by one round of the inner loop of the scatter.\<close>

definition scatter_one :: "build_params \<Rightarrow> root_atom \<Rightarrow> param_key \<Rightarrow> tensor \<Rightarrow> build_params" where
  "scatter_one bp r k p =
     (if k = thetas then
        (case to_sin_cos p of (s, c) \<Rightarrow> setitem (setitem bp r sthetas s) r cthetas c)
      else if k = chis then
        (case to_sin_cos p of (s, c) \<Rightarrow> setitem (setitem bp r schis s) r cchis c)
      else setitem bp r k p)"

text \<open>
  The angular keys, each with the keys of its sine and its cosine, and the gradient
  flags found in the store of an optimiser under some keys.
\<close>

definition angular :: "(param_key \<times> param_key \<times> param_key) set" where
  "angular = {(thetas, sthetas, cthetas), (chis, schis, cchis)}"

definition grad_flags :: "'o optimizer \<Rightarrow> root_atom \<Rightarrow> param_key list \<Rightarrow> bool option list" where
  "grad_flags s r ks = map (\<lambda>k. map_option requires_grad (build_params s r k)) ks"

text \<open>What extraction reads at a slot: the stored tensor, marked.\<close>

definition extracted :: "build_params \<Rightarrow> root_atom \<times> param_key \<Rightarrow> tensor" where
  "extracted bp sl = (case sl of (r, k) \<Rightarrow> set_requires_grad (the (bp r k)))"

text \<open>Two angles that differ by a whole number of turns.\<close>

definition same_angle :: "real \<Rightarrow> real \<Rightarrow> bool" where
  "same_angle a x = (\<exists>k::int. a = x + 2 * pi * of_int k)"

text \<open>The angles that a sine/cosine pair of the store stands for.\<close>

definition angles_of :: "build_params \<Rightarrow> root_atom \<Rightarrow> param_key \<Rightarrow> param_key \<Rightarrow> real list" where
  "angles_of bp r sk ck = map2 atan2 (vals (the (bp r sk))) (vals (the (bp r ck)))"

text \<open>The raw angle tensor that the constructor derives from a stored sine/cosine pair.\<close>

definition raw_angle :: "build_params \<Rightarrow> root_atom \<Rightarrow> param_key \<Rightarrow> param_key \<Rightarrow> tensor" where
  "raw_angle bp r sk ck = torch_atan2 (the (bp r sk)) (the (bp r ck))"

text \<open>The parameter list of the object has one entry for every slot.\<close>

definition aligned :: "'o optimizer \<Rightarrow> bool" where
  "aligned s = (length (params s) = length (slots (keys_to_optimize s)))"

text \<open>
  The invariant of the SGD/Adam loop: the parameter list fits the slots, the optimiser
  is set, the counter has not passed the patience and nothing was printed.
\<close>

definition sgd_inv :: "'o loop_state \<Rightarrow> bool" where
  "sgd_inv st =
     (aligned (self st) \<and> opt (self st) \<noteq> None \<and> counter st \<le> patience \<and> stdout st = [])"

text \<open>
  How \<^verbatim>\<open>best_loss\<close> relates to the recorded losses: unset as long as nothing was
  recorded, afterwards one of the recorded losses and above none of them by more than
  \<open>epsilon\<close>.
\<close>

definition tracked :: "'o loop_state \<Rightarrow> bool" where
  "tracked st =
     (case best_loss st of
        None \<Rightarrow> losses (self st) = []
      | Some b \<Rightarrow>
          b \<in> set (losses (self st)) \<and> list_all (\<lambda>l. b \<le> l + epsilon) (losses (self st)))"

text \<open>
  The snapshot of the best parameters: unset as long as no loss was recorded, afterwards
  a list with one entry for every slot.
\<close>

definition best_kept :: "'o loop_state \<Rightarrow> bool" where
  "best_kept st =
     (case best_params_so_far st of
        None \<Rightarrow> best_loss st = None
      | Some ps \<Rightarrow> length ps = length (slots (keys_to_optimize (self st))))"

text \<open>
  The best loss after one more loss: the first loss becomes the best loss; a later loss
  replaces the best loss when it is lower by more than \<open>epsilon\<close>, and leaves it as it is
  otherwise, also when it is lower by \<open>epsilon\<close> or less. \<open>folded\<close> says that the best loss
  of a state is what this rule gives on the recorded losses in their order.
\<close>

definition track_best :: "real option \<Rightarrow> real \<Rightarrow> real option" where
  "track_best best l =
     (case best of
        None \<Rightarrow> Some l
      | Some b \<Rightarrow> if epsilon < b - l then Some l else Some b)"

definition folded :: "'o loop_state \<Rightarrow> bool" where
  "folded st = (best_loss st = foldl track_best None (losses (self st)))"

text \<open>The best loss is the least of the recorded losses.\<close>

definition best_is_minimum :: "'o loop_state \<Rightarrow> bool" where
  "best_is_minimum st = (best_loss st = Some (Min (set (losses (self st)))))"

text \<open>
  The three transforms of the energy as the specification lists them: the division by
  the residue count, the squashing, and the regulariser, which adds a multiple of the
  energy \<open>pre\<close> it was given before the squashing.
\<close>

definition spec_length_scale :: "loss_options \<Rightarrow> scn_protein \<Rightarrow> real \<Rightarrow> real" where
  "spec_length_scale opts protein e = (if scale_by_length opts then e / real (len protein) else e)"

definition spec_squash :: "loss_options \<Rightarrow> real \<Rightarrow> real" where
  "spec_squash opts e =
     (if modified_sigmoid opts then
        (case modified_sigmoid_params opts of
           (a, b, c, d) \<Rightarrow> (1 / a + exp (- (d * e + b) / c)) powi (- 1) - (a - 1))
      else e)"

definition spec_regularize :: "loss_options \<Rightarrow> real \<Rightarrow> real \<Rightarrow> real" where
  "spec_regularize opts pre e = (if add_relu opts then e + pre * (1 / 10 ^ 12) else e)"

text \<open>The three transforms in this order, the regulariser reading the length-scaled energy.\<close>

definition transformed_energy :: "loss_options \<Rightarrow> scn_protein \<Rightarrow> real \<Rightarrow> real" where
  "transformed_energy opts protein e =
     spec_regularize opts
       (spec_length_scale opts protein e)
       (spec_squash opts (spec_length_scale opts protein e))"

text \<open>The case in which the sigmoid divides by zero.\<close>

definition sigmoid_divides_by_zero :: "loss_options \<Rightarrow> bool" where
  "sigmoid_divides_by_zero opts = (modified_sigmoid opts \<and> fst (modified_sigmoid_params opts) = 0)"

subsection \<open>Construction followed by a run\<close>

text \<open>
  As \<^verbatim>\<open>main\<close> and the test do, build the object and call \<^verbatim>\<open>optimize\<close> on it.
  \<open>run_first_order\<close> stops before the final scatter and gives the state in which the
  SGD/Adam loop ends, with its local variables.
\<close>

definition run_optimize ::
  "'o externals \<Rightarrow> build_params \<Rightarrow> bool \<Rightarrow> bool \<Rightarrow> bool \<Rightarrow> string \<Rightarrow> real \<Rightarrow> nat \<Rightarrow>
     error + 'o optimizer \<times> build_params"
where
  "run_optimize ext defaults a b c name lr steps =
     (case init defaults a b c of
        Inl e \<Rightarrow> Inl e
      | Inr s \<Rightarrow> optimize ext s name lr steps)"

definition run_first_order ::
  "'o externals \<Rightarrow> build_params \<Rightarrow> bool \<Rightarrow> bool \<Rightarrow> bool \<Rightarrow> string \<Rightarrow> real \<Rightarrow> nat \<Rightarrow>
     error + 'o loop_state"
where
  "run_first_order ext defaults a b c name lr steps =
     (case init defaults a b c of
        Inl e \<Rightarrow> Inl e
      | Inr s \<Rightarrow>
          if constructor_fails ext name lr (params s) then Inl ValueError
          else sgd_loop ext steps (sgd_start ext s name lr))"

subsection \<open>Concrete inputs\<close>

definition ex_tensor :: "real \<Rightarrow> tensor" where
  "ex_tensor v = \<lparr>vals = [v], requires_grad = False\<rparr>"

text \<open>A table with one bond length and one angle of each kind per root atom.\<close>

definition ex_defaults :: build_params where
  "ex_defaults =
     (\<lambda>r. [bond_lengths \<mapsto> ex_tensor 1,
           sthetas \<mapsto> ex_tensor 0, cthetas \<mapsto> ex_tensor 1,
           schis \<mapsto> ex_tensor 0, cchis \<mapsto> ex_tensor 1])"

text \<open>The same table with raw angles in it: 7 radians for the thetas, 0 for the chis.\<close>

definition ex_store :: build_params where
  "ex_store = (\<lambda>r. (ex_defaults r)(thetas \<mapsto> ex_tensor 7, chis \<mapsto> ex_tensor 0))"

text \<open>Collaborators with a constant energy and optimisers that leave the data alone.\<close>

definition ex_flat :: "unit externals" where
  "ex_flat =
     \<lparr>energy_loss = (\<lambda>bp. 1),
      new_optimizer = (\<lambda>name lr ps. ()),
      first_order_step = (\<lambda>o1 bp ps lossnp. ((), \<lambda>i. [1])),
      lbfgs_step = (\<lambda>o1 bp ps. ((), [])),
      refuses = (\<lambda>name lr ps. False)\<rparr>"

text \<open>
  Collaborators whose energy is the first bond length at \<^verbatim>\<open>'N'\<close> and whose first-order
  step sets every parameter to 0.99995.
\<close>

definition ex_slow :: "unit externals" where
  "ex_slow =
     \<lparr>energy_loss =
        (\<lambda>bp. case bp N bond_lengths of
                None \<Rightarrow> 0
              | Some t \<Rightarrow> (case vals t of [] \<Rightarrow> 0 | v # vs \<Rightarrow> v)),
      new_optimizer = (\<lambda>name lr ps. ()),
      first_order_step = (\<lambda>o1 bp ps lossnp. ((), \<lambda>i. [99995 / 100000])),
      lbfgs_step = (\<lambda>o1 bp ps. ((), [])),
      refuses = (\<lambda>name lr ps. False)\<rparr>"

text \<open>A batch of three samples, the second with an unknown residue.\<close>

definition ex_sample :: "string \<Rightarrow> sample" where
  "ex_sample sq =
     \<lparr>sample_seq = sq, sample_mask = map (\<lambda>c. CHR ''+'') sq, sample_name = None,
      pred_coords = [], true_coords = []\<rparr>"

definition ex_reps :: model_reps where
  "ex_reps =
     \<lparr>final_atom_positions_shape = [3, 3, 37, 3],
      samples = [ex_sample ''AG'', ex_sample ''AXG'', ex_sample ''G'']\<rparr>"

definition ex_loss_externals :: loss_externals where
  "ex_loss_externals =
     \<lparr>hydrogenate = (\<lambda>p. coords p), openmm_energy = (\<lambda>p. - real (length (seq p)))\<rparr>"

definition ex_options :: loss_options where
  "ex_options =
     \<lparr>scale_by_length = False, modified_sigmoid = False,
      modified_sigmoid_params = (1, 1, 1, 1), add_relu = True\<rparr>"

section \<open>Properties\<close>

subsection \<open>The angle of a sine/cosine pair\<close>

lemma cos_pos_range:
  assumes "- pi < x" "x \<le> pi" "0 < cos x"
  shows "- (pi/2) < x \<and> x < pi/2"
proof -
  have a: "\<not> pi/2 \<le> x"
  proof
    assume "pi/2 \<le> x"
    then have "cos x \<le> cos (pi/2)" using assms(2) by (intro cos_monotone_0_pi_le) auto
    with assms(3) show False by simp
  qed
  have b: "\<not> x \<le> - (pi/2)"
  proof
    assume h: "x \<le> - (pi/2)"
    then have "cos (- x) \<le> cos (pi/2)" using assms(1) by (intro cos_monotone_0_pi_le) auto
    with assms(3) show False by simp
  qed
  from a b show ?thesis by simp
qed

lemma cos_neg_sin_nonneg:
  assumes "- pi < x" "x \<le> pi" "cos x < 0" "0 \<le> sin x"
  shows "pi/2 < x"
proof (rule ccontr)
  assume "\<not> pi/2 < x"
  then have le: "x \<le> pi/2" by simp
  show False
  proof (cases "- (pi/2) \<le> x")
    case True
    then have "0 \<le> cos x" using le by (rule cos_ge_zero)
    with assms(3) show False by simp
  next
    case False
    then have "0 < - x" "- x < pi" using assms(1) pi_gt_zero by auto
    then have "0 < sin (- x)" by (rule sin_gt_zero)
    with assms(4) show False by simp
  qed
qed

lemma cos_neg_sin_neg:
  assumes "- pi < x" "x \<le> pi" "cos x < 0" "sin x < 0"
  shows "x < - (pi/2)"
proof (rule ccontr)
  assume "\<not> x < - (pi/2)"
  then have ge: "- (pi/2) \<le> x" by simp
  show False
  proof (cases "x \<le> pi/2")
    case True
    with ge have "0 \<le> cos x" by (rule cos_ge_zero)
    with assms(3) show False by simp
  next
    case False
    then have "pi/2 < x" by simp
    with pi_gt_zero have "0 \<le> x" by linarith
    then have "0 \<le> sin x" using assms(2) by (rule sin_ge_zero)
    with assms(4) show False by simp
  qed
qed

lemma arctan_tan_shift_minus:
  assumes "pi/2 < x" "x \<le> pi"
  shows "arctan (sin x / cos x) = x - pi"
proof -
  have "tan x = tan (x - pi)" using tan_periodic_pi [of "x - pi"] by simp
  moreover have "arctan (tan (x - pi)) = x - pi"
    using assms by (intro arctan_tan) auto
  ultimately show ?thesis by (simp add: tan_def)
qed

lemma arctan_tan_shift_plus:
  assumes "- pi < x" "x < - (pi/2)"
  shows "arctan (sin x / cos x) = x + pi"
proof -
  have "arctan (tan (x + pi)) = x + pi"
    using assms by (intro arctan_tan) auto
  then show ?thesis by (simp add: tan_def)
qed

lemma atan2_sin_cos_principal:
  assumes "- pi < x" "x \<le> pi"
  shows "atan2 (sin x) (cos x) = x"
proof -
  consider (pos) "0 < cos x" | (neg1) "cos x < 0" "0 \<le> sin x" | (neg2) "cos x < 0" "sin x < 0"
    | (zero) "cos x = 0"
    by linarith
  then show ?thesis
  proof cases
    case pos
    then have "- (pi/2) < x \<and> x < pi/2" using assms cos_pos_range by blast
    then have "arctan (tan x) = x" by (simp add: arctan_tan)
    with pos show ?thesis by (simp add: atan2_def tan_def)
  next
    case neg1
    then have "pi/2 < x" using assms cos_neg_sin_nonneg by blast
    then have "arctan (sin x / cos x) = x - pi" using assms(2) by (rule arctan_tan_shift_minus)
    with neg1 show ?thesis by (simp add: atan2_def)
  next
    case neg2
    then have "x < - (pi/2)" using assms cos_neg_sin_neg by blast
    with assms(1) have "arctan (sin x / cos x) = x + pi" by (rule arctan_tan_shift_plus)
    with neg2 show ?thesis by (simp add: atan2_def)
  next
    case zero
    have "\<bar>x\<bar> = pi/2"
    proof (rule ccontr)
      assume ne: "\<bar>x\<bar> \<noteq> pi/2"
      have c: "cos \<bar>x\<bar> = 0" using zero by (simp add: abs_if)
      show False
      proof (cases "\<bar>x\<bar> < pi/2")
        case True
        then have "0 < cos \<bar>x\<bar>" by (intro cos_gt_zero_pi) auto
        with c show False by simp
      next
        case False
        with ne have "pi/2 < \<bar>x\<bar>" by simp
        moreover have "\<bar>x\<bar> \<le> pi" using assms by (simp add: abs_if)
        ultimately have "cos \<bar>x\<bar> < cos (pi/2)" by (intro cos_monotone_0_pi) auto
        with c show False by simp
      qed
    qed
    then have "x = pi/2 \<or> x = - (pi/2)" by (auto simp: abs_if split: if_splits)
    then show ?thesis
    proof
      assume h: "x = pi/2"
      have "atan2 (sin (pi/2)) (cos (pi/2)) = pi/2" by (simp add: atan2_def)
      then show ?thesis unfolding h .
    next
      assume h: "x = - (pi/2)"
      have "atan2 (sin (- (pi/2))) (cos (- (pi/2))) = - (pi/2)" by (simp add: atan2_def)
      then show ?thesis unfolding h .
    qed
  qed
qed

lemma atan2_sin_cos: "\<exists>k::int. atan2 (sin x) (cos x) = x + 2 * pi * of_int k"
proof -
  obtain y where y: "- pi < y" "y \<le> pi" "sin y = sin x" "cos y = cos x"
    using sincos_principal_value [of x] by blast
  have "atan2 (sin x) (cos x) = y" using atan2_sin_cos_principal [OF y(1,2)] y(3,4) by simp
  moreover obtain n :: int where "y = x + 2 * pi * of_int n"
    using y(3,4) sin_cos_eq_iff [of y x] by blast
  ultimately show ?thesis by blast
qed

subsection \<open>The scatter succeeds on a list that has an entry for every slot\<close>

lemma update_keys_ok:
  "i + length ks \<le> length ps \<Longrightarrow>
   \<exists>bp'. update_keys r ks (Some ps) (bp, i) = Inr (bp', i + length ks)"
proof (induction ks arbitrary: bp i)
  case Nil
  then show ?case by simp
next
  case (Cons k ks)
  then have "i < length ps" "Suc i + length ks \<le> length ps" by simp_all
  then show ?case using Cons.IH [of "Suc i"] by (simp add: subscript_def)
qed

lemma update_roots_ok:
  "i + length rs * length ks \<le> length ps \<Longrightarrow>
   \<exists>bp'. update_roots rs ks (Some ps) (bp, i) = Inr (bp', i + length rs * length ks)"
proof (induction rs arbitrary: bp i)
  case Nil
  then show ?case by simp
next
  case (Cons r rs)
  then have a: "i + length ks \<le> length ps"
    and b: "(i + length ks) + length rs * length ks \<le> length ps" by simp_all
  from update_keys_ok [OF a] obtain bp1 where
    "update_keys r ks (Some ps) (bp, i) = Inr (bp1, i + length ks)" by blast
  moreover from Cons.IH [OF b] obtain bp2 where
    "update_roots rs ks (Some ps) (bp1, i + length ks) =
       Inr (bp2, i + length ks + length rs * length ks)" by blast
  ultimately show ?case by (simp add: add.assoc)
qed

lemma length_slots: "length (slots ks) = 3 * length ks"
  by (simp add: slots_def)

lemma update_complete_ok:
  assumes "length (slots ks) \<le> length ps"
  shows "\<exists>bp'. update_complete_build_params_with_optimized_params ks bp (Some ps) = Inr bp'"
proof -
  have "0 + length [N, CA, C] * length ks \<le> length ps" using assms by (simp add: length_slots)
  from update_roots_ok [OF this] obtain bp' where
    "update_roots [N, CA, C] ks (Some ps) (bp, 0) = Inr (bp', 0 + length [N, CA, C] * length ks)"
    by blast
  then show ?thesis
    by (simp only: update_complete_build_params_with_optimized_params_def sum.case prod.case)
      blast
qed

lemma length_set_data: "length (set_data new ps) = length ps"
  by (simp add: set_data_def)

lemma overwrite_simps:
  "keys_to_optimize (overwrite new s) = keys_to_optimize s"
  "opt (overwrite new s) = opt s"
  "losses (overwrite new s) = losses s"
  "length (params (overwrite new s)) = length (params s)"
  by (simp_all add: overwrite_def length_set_data)

lemma aligned_overwrite: "aligned (overwrite new s) = aligned s"
  by (simp add: aligned_def overwrite_simps)

lemma closure_ok:
  assumes "aligned s"
  shows "\<exists>s' l. closure ext s = Inr (s', l) \<and> aligned s' \<and> opt s' = opt s"
proof -
  from assms have "length (slots (keys_to_optimize s)) \<le> length (params s)"
    by (simp add: aligned_def)
  from update_complete_ok [OF this] obtain bp' where
    "update_complete_build_params_with_optimized_params
       (keys_to_optimize s) (build_params s) (Some (params s)) = Inr bp'" by blast
  then show ?thesis using assms by (simp add: closure_def aligned_def)
qed

lemma lbfgs_evals_ok:
  "aligned s \<Longrightarrow> \<exists>s'. lbfgs_evals ext plan s = Inr s' \<and> aligned s' \<and> opt s' = opt s"
proof (induction plan arbitrary: s)
  case Nil
  then show ?case by simp
next
  case (Cons new rest)
  then have "aligned (overwrite new s)" by (simp add: aligned_overwrite)
  from closure_ok [OF this] obtain s1 l where
    c: "closure ext (overwrite new s) = Inr (s1, l)" "aligned s1" "opt s1 = opt (overwrite new s)"
    by blast
  from Cons.IH [OF c(2)] obtain s2 where
    "lbfgs_evals ext rest s1 = Inr s2" "aligned s2" "opt s2 = opt s1" by blast
  with c show ?case by (simp add: overwrite_simps)
qed

lemma lbfgs_body_ok:
  assumes "aligned s" "opt s \<noteq> None"
  shows "\<exists>s'. lbfgs_body ext s = Inr s' \<and> aligned s' \<and> opt s' \<noteq> None"
proof -
  let ?s1 = "s\<lparr>build_params_history := build_params_history s @ [map detach (params s)]\<rparr>"
  from assms obtain o1 where o1: "opt ?s1 = Some o1" by auto
  have "aligned ?s1" using assms(1) by (simp add: aligned_def)
  from closure_ok [OF this] obtain s2 l where
    c: "closure ext ?s1 = Inr (s2, l)" "aligned s2" by blast
  obtain o2 plan where st: "lbfgs_step ext o1 (build_params s2) (params s2) = (o2, plan)"
    by (cases "lbfgs_step ext o1 (build_params s2) (params s2)")
  from lbfgs_evals_ok [OF c(2)] obtain s3 where
    e: "lbfgs_evals ext plan s2 = Inr s3" "aligned s3" by blast
  have "lbfgs_body ext s = Inr (s3\<lparr>opt := Some o2\<rparr>)"
    using o1 c(1) st e(1) by (simp add: lbfgs_body_def Let_def)
  moreover have "aligned (s3\<lparr>opt := Some o2\<rparr>)" using e(2) by (simp add: aligned_def)
  ultimately show ?thesis by simp
qed

lemma lbfgs_loop_ok:
  "aligned s \<Longrightarrow> opt s \<noteq> None \<Longrightarrow> \<exists>s'. lbfgs_loop ext n s = Inr s'"
proof (induction n arbitrary: s)
  case 0
  then show ?case by simp
next
  case (Suc n)
  from lbfgs_body_ok [OF Suc.prems] obtain s1 where
    b: "lbfgs_body ext s = Inr s1" "aligned s1" "opt s1 \<noteq> None" by blast
  from Suc.IH [OF b(2,3)] b(1) show ?case by simp
qed

lemma sgd_step_ok:
  assumes "opt s \<noteq> None"
  shows "\<exists>s'. sgd_step ext l s = Inr s' \<and> aligned s' = aligned s \<and> opt s' \<noteq> None \<and>
              losses s' = losses s @ [l]"
proof -
  let ?s1 = "s\<lparr>losses := losses s @ [l]\<rparr>"
  from assms obtain o1 where o1: "opt ?s1 = Some o1" by auto
  obtain o2 new where st: "first_order_step ext o1 (build_params ?s1) (params ?s1) l = (o2, new)"
    by (cases "first_order_step ext o1 (build_params ?s1) (params ?s1) l")
  have "sgd_step ext l s = Inr ((overwrite new ?s1)\<lparr>opt := Some o2\<rparr>)"
    using o1 st by (simp add: sgd_step_def Let_def)
  moreover have "aligned ((overwrite new ?s1)\<lparr>opt := Some o2\<rparr>) = aligned s"
    by (simp add: aligned_def overwrite_simps)
  ultimately show ?thesis by (simp add: overwrite_simps)
qed

lemma epsilon_pos: "0 < epsilon"
  by (simp add: epsilon_def)

lemma tracked_improved:
  assumes "tracked st" "case best_loss st of None \<Rightarrow> True | Some b \<Rightarrow> l < b \<and> \<bar>b - l\<bar> > epsilon"
    "losses s' = losses (self st) @ [l]"
  shows "tracked (st\<lparr>self := s', best_loss := Some l, best_params_so_far := bps, counter := 0\<rparr>)"
proof (cases "best_loss st")
  case None
  with assms show ?thesis using epsilon_pos by (simp add: tracked_def)
next
  case (Some b)
  with assms have "l < b" "list_all (\<lambda>x. b \<le> x + epsilon) (losses (self st))"
    by (simp_all add: tracked_def)
  then have "list_all (\<lambda>x. l \<le> x + epsilon) (losses (self st))"
    by (auto simp: list_all_iff)
  with assms(3) show ?thesis using epsilon_pos by (simp add: tracked_def)
qed

lemma tracked_kept:
  assumes "tracked st" "\<not> (case best_loss st of None \<Rightarrow> True | Some b \<Rightarrow> l < b \<and> \<bar>b - l\<bar> > epsilon)"
    "losses s' = losses (self st) @ [l]" "best_loss st' = best_loss st" "self st' = s'"
  shows "tracked st'"
proof -
  from assms(2) obtain b where b: "best_loss st = Some b" "\<not> (l < b \<and> \<bar>b - l\<bar> > epsilon)"
    by (cases "best_loss st") auto
  then have "b \<le> l + epsilon" using epsilon_pos by (auto simp: abs_if split: if_splits)
  with assms b(1) show ?thesis by (simp add: tracked_def)
qed

lemma sgd_body_ok:
  assumes "sgd_inv st"
  shows "\<exists>st' bp. sgd_body ext st = Inr (Continue st') \<and> sgd_inv st' \<and>
           losses (self st') = losses (self st) @ [energy_loss ext bp] \<and> best_loss st' \<noteq> None \<and>
           (tracked st \<longrightarrow> tracked st')"
proof -
  let ?s = "self st"
  let ?s1 = "?s\<lparr>build_params_history := build_params_history ?s @ [map detach (params ?s)]\<rparr>"
  from assms have al: "aligned ?s" and op: "opt ?s \<noteq> None" and cn: "counter st \<le> patience"
    and so: "stdout st = []" by (simp_all add: sgd_inv_def)
  from al have "length (slots (keys_to_optimize ?s1)) \<le> length (params ?s)"
    by (simp add: aligned_def)
  from update_complete_ok [OF this] obtain bp where
    up: "update_complete_build_params_with_optimized_params
          (keys_to_optimize ?s1) (build_params ?s1) (Some (params ?s)) = Inr bp" by blast
  let ?s2 = "?s1\<lparr>build_params := bp\<rparr>"
  let ?l = "energy_loss ext bp"
  have "opt ?s2 \<noteq> None" using op by simp
  from sgd_step_ok [OF this, of ext ?l] obtain s3 where
    s3: "sgd_step ext ?l ?s2 = Inr s3" "aligned s3 = aligned ?s2" "opt s3 \<noteq> None"
      "losses s3 = losses ?s2 @ [?l]" by blast
  have al3: "aligned s3" using s3(2) al by (simp add: aligned_def)
  have ls3: "losses s3 = losses (self st) @ [?l]" using s3(4) by simp
  let ?imp = "case best_loss st of None \<Rightarrow> True | Some b \<Rightarrow> ?l < b \<and> \<bar>b - ?l\<bar> > epsilon"
  show ?thesis
  proof (cases ?imp)
    case True
    let ?st' = "st\<lparr>self := s3, best_loss := Some ?l,
                   best_params_so_far := Some (params ?s), counter := 0\<rparr>"
    have "sgd_body ext st = Inr (Continue ?st')"
      using up s3(1) True by (simp add: sgd_body_def Let_def)
    moreover have "sgd_inv ?st'" using al3 s3(3) so by (simp add: sgd_inv_def)
    moreover have "tracked st \<longrightarrow> tracked ?st'" using tracked_improved [OF _ True ls3] by blast
    ultimately show ?thesis using ls3 by auto
  next
    case False
    then obtain b where b: "best_loss st = Some b" by (cases "best_loss st") auto
    show ?thesis
    proof (cases "counter st < patience")
      case lt: True
      let ?st' = "st\<lparr>self := s3, counter := counter st + 1\<rparr>"
      have "sgd_body ext st = Inr (Continue ?st')"
        using up s3(1) False lt by (simp add: sgd_body_def Let_def)
      moreover have "sgd_inv ?st'" using al3 s3(3) so lt by (simp add: sgd_inv_def)
      moreover have "tracked st \<longrightarrow> tracked ?st'"
        using tracked_kept [OF _ False ls3, of ?st'] by simp
      ultimately show ?thesis using ls3 b by auto
    next
      case ge: False
      let ?st' = "st\<lparr>self := s3\<rparr>"
      have "sgd_body ext st = Inr (Continue ?st')"
        using up s3(1) False ge cn by (simp add: sgd_body_def Let_def)
      moreover have "sgd_inv ?st'" using al3 s3(3) so cn by (simp add: sgd_inv_def)
      moreover have "tracked st \<longrightarrow> tracked ?st'"
        using tracked_kept [OF _ False ls3, of ?st'] by simp
      ultimately show ?thesis using ls3 b by auto
    qed
  qed
qed

lemma sgd_loop_ok:
  "sgd_inv st \<Longrightarrow>
   \<exists>st'. sgd_loop ext n st = Inr st' \<and> sgd_inv st' \<and>
         length (losses (self st')) = length (losses (self st)) + n \<and>
         set (losses (self st')) \<subseteq> set (losses (self st)) \<union> range (energy_loss ext) \<and>
         (tracked st \<longrightarrow> tracked st') \<and> (0 < n \<longrightarrow> best_loss st' \<noteq> None)"
proof (induction n arbitrary: st)
  case 0
  then show ?case by simp
next
  case (Suc n)
  from sgd_body_ok [OF Suc.prems] obtain st1 bp where
    b: "sgd_body ext st = Inr (Continue st1)" "sgd_inv st1"
      "losses (self st1) = losses (self st) @ [energy_loss ext bp]" "best_loss st1 \<noteq> None"
      "tracked st \<longrightarrow> tracked st1" by blast
  from Suc.IH [OF b(2)] obtain st2 where
    l: "sgd_loop ext n st1 = Inr st2" "sgd_inv st2"
      "length (losses (self st2)) = length (losses (self st1)) + n"
      "set (losses (self st2)) \<subseteq> set (losses (self st1)) \<union> range (energy_loss ext)"
      "tracked st1 \<longrightarrow> tracked st2" "0 < n \<longrightarrow> best_loss st2 \<noteq> None" by blast
  have "best_loss st2 \<noteq> None"
  proof (cases n)
    case 0
    with l(1) b(4) show ?thesis by simp
  next
    case (Suc m)
    with l(6) show ?thesis by simp
  qed
  moreover have "set (losses (self st2)) \<subseteq> set (losses (self st)) \<union> range (energy_loss ext)"
    using l(4) b(3) by auto
  ultimately show ?case using b l by simp
qed

subsection \<open>What extraction and construction produce\<close>

lemma mark_idem: "set_requires_grad (set_requires_grad t) = set_requires_grad t"
  by (simp add: set_requires_grad_def)

lemma create_keys_char:
  "create_keys r ks (bp, ps) = Inr (bp', ps') \<Longrightarrow>
   ps' = ps @ map (\<lambda>k. extracted bp (r, k)) ks \<and>
   (\<forall>r' k'. bp' r' k' =
      (if r' = r \<and> k' \<in> set ks then map_option set_requires_grad (bp r' k') else bp r' k')) \<and>
   (\<forall>k\<in>set ks. bp r k \<noteq> None)"
proof (induction ks arbitrary: bp ps)
  case Nil
  then show ?case by simp
next
  case (Cons k ks)
  from Cons.prems obtain t where t: "bp r k = Some t"
    by (cases "bp r k") (simp_all add: getitem_def)
  let ?bp1 = "setitem bp r k (set_requires_grad t)"
  from Cons.prems t have "create_keys r ks (?bp1, ps @ [set_requires_grad t]) = Inr (bp', ps')"
    by (simp add: getitem_def)
  from Cons.IH [OF this] have
    a: "ps' = (ps @ [set_requires_grad t]) @ map (\<lambda>k. extracted ?bp1 (r, k)) ks"
    and b: "\<forall>r' k'. bp' r' k' =
      (if r' = r \<and> k' \<in> set ks then map_option set_requires_grad (?bp1 r' k') else ?bp1 r' k')"
    and c: "\<forall>k\<in>set ks. ?bp1 r k \<noteq> None" by blast+
  have e: "extracted ?bp1 (r, k') = extracted bp (r, k')" for k'
    using t by (simp add: extracted_def setitem_def mark_idem)
  have "ps' = ps @ map (\<lambda>k. extracted bp (r, k)) (k # ks)"
    using a t by (simp add: e) (simp add: extracted_def)
  moreover have "\<forall>r' k'. bp' r' k' =
      (if r' = r \<and> k' \<in> set (k # ks) then map_option set_requires_grad (bp r' k') else bp r' k')"
    using b t by (auto simp: setitem_def mark_idem)
  moreover have "\<forall>k'\<in>set (k # ks). bp r k' \<noteq> None"
    using c t by (auto simp: setitem_def split: if_splits)
  ultimately show ?case by blast
qed

lemma create_roots_char:
  "create_roots rs ks (bp, ps) = Inr (bp', ps') \<Longrightarrow>
   ps' = ps @ map (extracted bp) (concat (map (\<lambda>r. map (\<lambda>k. (r, k)) ks) rs)) \<and>
   (\<forall>r' k'. bp' r' k' =
      (if r' \<in> set rs \<and> k' \<in> set ks then map_option set_requires_grad (bp r' k') else bp r' k')) \<and>
   (\<forall>r\<in>set rs. \<forall>k\<in>set ks. bp r k \<noteq> None)"
proof (induction rs arbitrary: bp ps)
  case Nil
  then show ?case by simp
next
  case (Cons r rs)
  from Cons.prems obtain bp1 ps1 where
    k: "create_keys r ks (bp, ps) = Inr (bp1, ps1)"
    and rest: "create_roots rs ks (bp1, ps1) = Inr (bp', ps')"
    by (cases "create_keys r ks (bp, ps)") auto
  from create_keys_char [OF k] have
    k1: "ps1 = ps @ map (\<lambda>k. extracted bp (r, k)) ks"
    and k2: "\<And>r' k'. bp1 r' k' =
      (if r' = r \<and> k' \<in> set ks then map_option set_requires_grad (bp r' k') else bp r' k')"
    and k3: "\<forall>k\<in>set ks. bp r k \<noteq> None" by blast+
  from Cons.IH [OF rest] have
    r1: "ps' = ps1 @ map (extracted bp1) (concat (map (\<lambda>r. map (\<lambda>k. (r, k)) ks) rs))"
    and r2: "\<And>r' k'. bp' r' k' =
      (if r' \<in> set rs \<and> k' \<in> set ks then map_option set_requires_grad (bp1 r' k') else bp1 r' k')"
    and r3: "\<forall>r\<in>set rs. \<forall>k\<in>set ks. bp1 r k \<noteq> None" by blast+
  have e: "extracted bp1 sl = extracted bp sl" for sl
  proof (cases sl)
    case (Pair r' k')
    show ?thesis
    proof (cases "bp r' k'")
      case None
      then show ?thesis using Pair k3 by (auto simp: extracted_def k2)
    next
      case (Some t)
      then show ?thesis using Pair by (auto simp: extracted_def k2 mark_idem)
    qed
  qed
  have "map (extracted bp1) (concat (map (\<lambda>r. map (\<lambda>k. (r, k)) ks) rs)) =
        map (extracted bp) (concat (map (\<lambda>r. map (\<lambda>k. (r, k)) ks) rs))"
    by (simp add: e)
  then have "ps' = ps @ map (extracted bp) (concat (map (\<lambda>r. map (\<lambda>k. (r, k)) ks) (r # rs)))"
    using r1 k1 by simp
  moreover have "\<forall>r' k'. bp' r' k' =
      (if r' \<in> set (r # rs) \<and> k' \<in> set ks then map_option set_requires_grad (bp r' k')
       else bp r' k')"
  proof (intro allI)
    fix r' k'
    show "bp' r' k' =
      (if r' \<in> set (r # rs) \<and> k' \<in> set ks then map_option set_requires_grad (bp r' k')
       else bp r' k')"
      by (cases "bp r' k'") (auto simp: r2 k2 mark_idem)
  qed
  moreover have "\<forall>r'\<in>set (r # rs). \<forall>k\<in>set ks. bp r' k \<noteq> None"
    using k3 r3 by (auto simp: k2 split: if_splits)
  ultimately show ?case by blast
qed

lemma root_atom_UNIV: "set [N, CA, C] = UNIV"
  using root_atom.exhaust by auto

lemma create_param_list_char:
  assumes "create_param_list_from_build_params ks bp = Inr (bp', ps)"
  shows "ps = map (extracted bp) (slots ks)"
    and "bp' r k = (if k \<in> set ks then map_option set_requires_grad (bp r k) else bp r k)"
    and "k \<in> set ks \<Longrightarrow> bp r k \<noteq> None"
proof -
  from assms have c: "create_roots [N, CA, C] ks (bp, []) = Inr (bp', ps)"
    by (simp add: create_param_list_from_build_params_def)
  note ch = create_roots_char [OF c, unfolded root_atom_UNIV]
  from ch show "ps = map (extracted bp) (slots ks)" by (simp add: slots_def)
  from ch show "bp' r k = (if k \<in> set ks then map_option set_requires_grad (bp r k) else bp r k)"
    by simp
  from ch show "k \<in> set ks \<Longrightarrow> bp r k \<noteq> None" by simp
qed

lemma create_keys_total:
  "\<forall>k\<in>set ks. bp r k \<noteq> None \<Longrightarrow> \<exists>bp' ps'. create_keys r ks (bp, ps) = Inr (bp', ps')"
proof (induction ks arbitrary: bp ps)
  case Nil
  then show ?case by simp
next
  case (Cons k ks)
  then obtain t where t: "bp r k = Some t" by auto
  let ?bp1 = "setitem bp r k (set_requires_grad t)"
  have "\<forall>k'\<in>set ks. ?bp1 r k' \<noteq> None"
    using Cons.prems by (simp add: setitem_def)
  then have "\<exists>bp' ps'. create_keys r ks (?bp1, ps @ [set_requires_grad t]) = Inr (bp', ps')"
    by (rule Cons.IH)
  then show ?case using t by (simp add: getitem_def)
qed

lemma create_roots_total:
  "\<forall>r\<in>set rs. \<forall>k\<in>set ks. bp r k \<noteq> None \<Longrightarrow>
   \<exists>bp' ps'. create_roots rs ks (bp, ps) = Inr (bp', ps')"
proof (induction rs arbitrary: bp ps)
  case Nil
  then show ?case by simp
next
  case (Cons r rs)
  then have "\<forall>k\<in>set ks. bp r k \<noteq> None" by simp
  then have "\<exists>bp' ps'. create_keys r ks (bp, ps) = Inr (bp', ps')" by (rule create_keys_total)
  then obtain bp1 ps1 where
    k: "create_keys r ks (bp, ps) = Inr (bp1, ps1)" by blast
  have "\<forall>r'\<in>set rs. \<forall>k\<in>set ks. bp1 r' k \<noteq> None"
    using create_keys_char [OF k] Cons.prems by auto
  then have "\<exists>bp' ps'. create_roots rs ks (bp1, ps1) = Inr (bp', ps')" by (rule Cons.IH)
  then show ?case using k by simp
qed

lemma create_param_list_total:
  assumes "\<And>r k. k \<in> set ks \<Longrightarrow> bp r k \<noteq> None"
  shows "\<exists>bp' ps. create_param_list_from_build_params ks bp = Inr (bp', ps)"
proof -
  have "\<forall>r\<in>set [N, CA, C]. \<forall>k\<in>set ks. bp r k \<noteq> None" using assms by blast
  then have "\<exists>bp' ps'. create_roots [N, CA, C] ks (bp, []) = Inr (bp', ps')"
    by (rule create_roots_total)
  then show ?thesis by (simp add: create_param_list_from_build_params_def)
qed


lemma init_angle_char:
  "init_angle bp r k sk ck = Inr bp' \<Longrightarrow>
   bp r sk \<noteq> None \<and> bp r ck \<noteq> None \<and> bp' = setitem bp r k (raw_angle bp r sk ck)"
  by (auto simp: init_angle_def getitem_def raw_angle_def split: option.splits)

lemma init_angle_total:
  "bp r sk \<noteq> None \<Longrightarrow> bp r ck \<noteq> None \<Longrightarrow>
   init_angle bp r k sk ck = Inr (setitem bp r k (raw_angle bp r sk ck))"
  by (auto simp: init_angle_def getitem_def raw_angle_def)

text \<open>One round of the constructor's loop, for one root atom.\<close>

lemma init_angles_step:
  assumes "(if thetas \<in> set ks then init_angle bp r thetas sthetas cthetas else Inr bp) = Inr bp1"
    and "(if chis \<in> set ks then init_angle bp1 r chis schis cchis else Inr bp1) = Inr bp2"
  shows "bp2 r' k =
      (if r' = r \<and> k = thetas \<and> thetas \<in> set ks then Some (raw_angle bp r sthetas cthetas)
       else if r' = r \<and> k = chis \<and> chis \<in> set ks then Some (raw_angle bp r schis cchis)
       else bp r' k)"
proof -
  have e1: "bp1 = (if thetas \<in> set ks then setitem bp r thetas (raw_angle bp r sthetas cthetas) else bp)"
    using assms(1) init_angle_char [of bp r thetas sthetas cthetas bp1]
    by (auto split: if_splits)
  have e2: "bp2 = (if chis \<in> set ks then setitem bp1 r chis (raw_angle bp1 r schis cchis) else bp1)"
    using assms(2) init_angle_char [of bp1 r chis schis cchis bp2]
    by (auto split: if_splits)
  have r1: "raw_angle bp1 r schis cchis = raw_angle bp r schis cchis"
    by (simp add: e1 raw_angle_def setitem_def)
  show ?thesis
    unfolding e2 r1 unfolding e1 by (simp add: setitem_def)
qed

lemma raw_angle_cong:
  "bp' r sk = bp r sk \<Longrightarrow> bp' r ck = bp r ck \<Longrightarrow> raw_angle bp' r sk ck = raw_angle bp r sk ck"
  by (simp add: raw_angle_def)

lemma init_angles_char:
  "init_angles rs ks bp = Inr bp' \<Longrightarrow>
   bp' r' k =
      (if r' \<in> set rs \<and> k = thetas \<and> thetas \<in> set ks then Some (raw_angle bp r' sthetas cthetas)
       else if r' \<in> set rs \<and> k = chis \<and> chis \<in> set ks then Some (raw_angle bp r' schis cchis)
       else bp r' k)"
proof (induction rs arbitrary: bp)
  case Nil
  then show ?case by simp
next
  case (Cons r rs)
  let ?t = "if thetas \<in> set ks then init_angle bp r thetas sthetas cthetas else Inr bp"
  from Cons.prems obtain bp1 where b1: "?t = Inr bp1" by (cases ?t) auto
  let ?c = "if chis \<in> set ks then init_angle bp1 r chis schis cchis else Inr bp1"
  from Cons.prems b1 obtain bp2 where b2: "?c = Inr bp2" by (cases ?c) auto
  from Cons.prems b1 b2 have rest: "init_angles rs ks bp2 = Inr bp'" by simp
  note st = init_angles_step [OF b1 b2]
  have ra: "raw_angle bp2 r' sthetas cthetas = raw_angle bp r' sthetas cthetas"
    by (rule raw_angle_cong) (simp_all add: st)
  have rb: "raw_angle bp2 r' schis cchis = raw_angle bp r' schis cchis"
    by (rule raw_angle_cong) (simp_all add: st)
  show ?case
    unfolding Cons.IH [OF rest] ra rb by (simp add: st)
qed

lemma init_angles_total:
  "\<forall>r\<in>set rs. bp r sthetas \<noteq> None \<and> bp r cthetas \<noteq> None \<and> bp r schis \<noteq> None \<and> bp r cchis \<noteq> None
   \<Longrightarrow> \<exists>bp'. init_angles rs ks bp = Inr bp'"
proof (induction rs arbitrary: bp)
  case Nil
  then show ?case by simp
next
  case (Cons r rs)
  let ?t = "if thetas \<in> set ks then init_angle bp r thetas sthetas cthetas else Inr bp"
  have p: "bp r sthetas \<noteq> None" "bp r cthetas \<noteq> None" "bp r schis \<noteq> None" "bp r cchis \<noteq> None"
    using Cons.prems by simp_all
  obtain bp1 where b1: "?t = Inr bp1"
    using init_angle_total [of bp r sthetas cthetas thetas] p by (cases "thetas \<in> set ks") simp_all
  have e1: "bp1 r' k = (if thetas \<in> set ks \<and> r' = r \<and> k = thetas
                         then Some (raw_angle bp r sthetas cthetas) else bp r' k)" for r' k
    using b1 init_angle_char [of bp r thetas sthetas cthetas bp1]
    by (auto simp: setitem_def split: if_splits)
  let ?c = "if chis \<in> set ks then init_angle bp1 r chis schis cchis else Inr bp1"
  have q: "bp1 r schis \<noteq> None" "bp1 r cchis \<noteq> None" using p by (simp_all add: e1)
  obtain bp2 where b2: "?c = Inr bp2"
    using init_angle_total [of bp1 r schis cchis chis] q by (cases "chis \<in> set ks") simp_all
  note st = init_angles_step [OF b1 b2]
  have "\<forall>r\<in>set rs. bp2 r sthetas \<noteq> None \<and> bp2 r cthetas \<noteq> None \<and> bp2 r schis \<noteq> None \<and> bp2 r cchis \<noteq> None"
    using Cons.prems by (simp add: st)
  then have "\<exists>bp'. init_angles rs ks bp2 = Inr bp'" by (rule Cons.IH)
  with b1 b2 show ?case by simp
qed

lemma init_keys_cases:
  "init_keys a b c \<in> {[], [chis], [thetas], [thetas, chis], [bond_lengths], [bond_lengths, chis],
     [bond_lengths, thetas], [bond_lengths, thetas, chis]}"
  by (simp add: init_keys_def)

lemma set_init_keys:
  "bond_lengths \<in> set (init_keys a b c) \<longleftrightarrow> a"
  "thetas \<in> set (init_keys a b c) \<longleftrightarrow> b"
  "chis \<in> set (init_keys a b c) \<longleftrightarrow> c"
  "sthetas \<notin> set (init_keys a b c)" "cthetas \<notin> set (init_keys a b c)"
  "schis \<notin> set (init_keys a b c)" "cchis \<notin> set (init_keys a b c)"
  by (simp_all add: init_keys_def)

lemma in_roots: "r \<in> set [N, CA, C]"
  by (cases r) simp_all

lemma init_angles_all:
  assumes "init_angles [N, CA, C] ks bp = Inr bp'"
  shows "bp' r k =
      (if k = thetas \<and> thetas \<in> set ks then Some (raw_angle bp r sthetas cthetas)
       else if k = chis \<and> chis \<in> set ks then Some (raw_angle bp r schis cchis)
       else bp r k)"
  unfolding init_angles_char [OF assms] using in_roots [of r] by simp

lemma init_char:
  assumes "init defaults a b c = Inr s"
  obtains bp1 where
    "init_angles [N, CA, C] (init_keys a b c) defaults = Inr bp1"
    "create_param_list_from_build_params (init_keys a b c) bp1 = Inr (build_params s, params s)"
    "keys_to_optimize s = init_keys a b c" "losses s = []" "starting_build_params s = defaults"
proof -
  let ?ks = "init_keys a b c"
  from assms obtain bp1 where
    b1: "init_angles [N, CA, C] ?ks defaults = Inr bp1"
    by (cases "init_angles [N, CA, C] ?ks defaults") (simp_all add: init_def Let_def)
  from assms b1 obtain bp2 ps where
    b2: "create_param_list_from_build_params ?ks bp1 = Inr (bp2, ps)"
    by (cases "create_param_list_from_build_params ?ks bp1") (auto simp: init_def Let_def)
  from assms b1 b2 have
    "s = \<lparr>build_params = bp2, starting_build_params = defaults, keys_to_optimize = ?ks,
          losses = [], params = ps, build_params_history = [], opt = None\<rparr>"
    by (simp add: init_def Let_def)
  with b1 b2 that show thesis by simp
qed

lemma init_aligned:
  assumes "init defaults a b c = Inr s"
  shows "aligned s"
proof -
  from assms obtain bp1 where
    c: "create_param_list_from_build_params (init_keys a b c) bp1 = Inr (build_params s, params s)"
    and k: "keys_to_optimize s = init_keys a b c" by (rule init_char)
  from create_param_list_char(1) [OF c] k show ?thesis by (simp add: aligned_def)
qed

lemma init_total:
  assumes "\<And>r. defaults r bond_lengths \<noteq> None \<and> defaults r sthetas \<noteq> None \<and>
     defaults r cthetas \<noteq> None \<and> defaults r schis \<noteq> None \<and> defaults r cchis \<noteq> None"
  shows "\<exists>s. init defaults a b c = Inr s"
proof -
  let ?ks = "init_keys a b c"
  have "\<forall>r\<in>set [N, CA, C]. defaults r sthetas \<noteq> None \<and> defaults r cthetas \<noteq> None \<and>
     defaults r schis \<noteq> None \<and> defaults r cchis \<noteq> None" using assms by blast
  then have "\<exists>bp'. init_angles [N, CA, C] ?ks defaults = Inr bp'" by (rule init_angles_total)
  then obtain bp1 where b1: "init_angles [N, CA, C] ?ks defaults = Inr bp1" by blast
  have "bp1 r k \<noteq> None" if "k \<in> set ?ks" for r k
    using that assms [of r] init_keys_cases [of a b c]
    by (auto simp: init_angles_all [OF b1])
  then have "\<exists>bp' ps. create_param_list_from_build_params ?ks bp1 = Inr (bp', ps)"
    by (rule create_param_list_total)
  then show ?thesis using b1 by (auto simp: init_def Let_def)
qed

lemma sgd_start_inv: "aligned s \<Longrightarrow> sgd_inv (sgd_start ext s name lr)"
  by (simp add: sgd_inv_def sgd_start_def aligned_def patience_def)

lemma sgd_start_tracked: "losses s = [] \<Longrightarrow> tracked (sgd_start ext s name lr)"
  by (simp add: tracked_def sgd_start_def)

lemma ex_defaults_present:
  "ex_defaults r bond_lengths \<noteq> None \<and> ex_defaults r sthetas \<noteq> None \<and>
   ex_defaults r cthetas \<noteq> None \<and> ex_defaults r schis \<noteq> None \<and> ex_defaults r cchis \<noteq> None"
  by (simp add: ex_defaults_def)

lemma ex_init: "\<exists>s. init ex_defaults a b c = Inr s"
  by (rule init_total) (rule ex_defaults_present)

subsection \<open>Runs of the two loops from a constructed optimiser\<close>

lemmas eval_defs = init_def init_keys_def init_angle_def getitem_def setitem_def
  create_param_list_from_build_params_def set_requires_grad_def torch_atan2_def
  update_complete_build_params_with_optimized_params_def subscript_def to_sin_cos_def
  torch_sin_def torch_cos_def sgd_start_def sgd_body_def sgd_step_def overwrite_def
  write_through_def slots_def set_data_def detach_def epsilon_def patience_def
  ex_defaults_def ex_tensor_def Let_def

lemma track_best_code:
  "track_best best l =
     (if (case best of None \<Rightarrow> True | Some b \<Rightarrow> l < b \<and> \<bar>b - l\<bar> > epsilon)
      then Some l else best)"
  using epsilon_pos by (cases best) (auto simp: track_best_def abs_if)

lemma sgd_body_track:
  assumes "sgd_inv st" "sgd_body ext st = Inr (Continue st')"
  shows "\<exists>l. losses (self st') = losses (self st) @ [l] \<and>
             best_loss st' = track_best (best_loss st) l"
proof -
  let ?s = "self st"
  let ?s1 = "?s\<lparr>build_params_history := build_params_history ?s @ [map detach (params ?s)]\<rparr>"
  from assms(2) obtain bp where
    up: "update_complete_build_params_with_optimized_params
          (keys_to_optimize ?s1) (build_params ?s1) (Some (params ?s)) = Inr bp"
    by (auto simp: sgd_body_def Let_def split: sum.splits)
  let ?s2 = "?s1\<lparr>build_params := bp\<rparr>"
  let ?l = "energy_loss ext bp"
  let ?imp = "case best_loss st of None \<Rightarrow> True | Some b \<Rightarrow> ?l < b \<and> \<bar>b - ?l\<bar> > epsilon"
  from assms(1) have op: "opt ?s2 \<noteq> None" by (simp add: sgd_inv_def)
  from sgd_step_ok [OF op, of ext ?l] obtain s3 where
    s3: "sgd_step ext ?l ?s2 = Inr s3" "losses s3 = losses ?s2 @ [?l]" by blast
  have ls: "losses s3 = losses (self st) @ [?l]" using s3(2) by simp
  show ?thesis
  proof (cases ?imp)
    case True
    with assms(2) up s3(1) have
      "st' = st\<lparr>self := s3, best_loss := Some ?l,
                 best_params_so_far := Some (params ?s), counter := 0\<rparr>"
      by (simp add: sgd_body_def Let_def)
    with True ls show ?thesis by (auto simp: track_best_code)
  next
    case False
    with assms(2) up s3(1) have "self st' = s3 \<and> best_loss st' = best_loss st"
      by (auto simp: sgd_body_def Let_def split: if_splits)
    with False ls show ?thesis by (auto simp: track_best_code)
  qed
qed

lemma sgd_body_folded:
  assumes "sgd_inv st" "sgd_body ext st = Inr (Continue st')" "folded st"
  shows "folded st'"
proof -
  from sgd_body_track [OF assms(1,2)] obtain l where
    "losses (self st') = losses (self st) @ [l]" "best_loss st' = track_best (best_loss st) l"
    by blast
  with assms(3) show ?thesis by (simp add: folded_def)
qed

lemma sgd_loop_folded:
  "sgd_inv st \<Longrightarrow> folded st \<Longrightarrow> sgd_loop ext n st = Inr st' \<Longrightarrow> folded st'"
proof (induction n arbitrary: st)
  case 0
  then show ?case by simp
next
  case (Suc n)
  from sgd_body_ok [OF Suc.prems(1), of ext] obtain st1 where
    b: "sgd_body ext st = Inr (Continue st1)" "sgd_inv st1" by blast
  have f: "folded st1" using Suc.prems(1) b(1) Suc.prems(2) by (rule sgd_body_folded)
  from Suc.prems(3) b(1) have "sgd_loop ext n st1 = Inr st'" by simp
  with b(2) f show ?case by (rule Suc.IH)
qed

text \<open>The last round of a run of \<open>n + 1\<close> rounds starts where the run of \<open>n\<close> rounds ends.\<close>

lemma sgd_loop_last:
  "sgd_inv st \<Longrightarrow>
   \<exists>st1 st2. sgd_loop ext n st = Inr st1 \<and> sgd_inv st1 \<and>
             sgd_body ext st1 = Inr (Continue st2) \<and> sgd_loop ext (Suc n) st = Inr st2"
proof (induction n arbitrary: st)
  case 0
  from sgd_body_ok [OF 0, of ext] obtain st2 where
    "sgd_body ext st = Inr (Continue st2)" by blast
  with 0 show ?case by simp
next
  case (Suc n)
  from sgd_body_ok [OF Suc.prems, of ext] obtain sta where
    b: "sgd_body ext st = Inr (Continue sta)" "sgd_inv sta" by blast
  from Suc.IH [OF b(2)] obtain st1 st2 where
    "sgd_loop ext n sta = Inr st1" "sgd_inv st1" "sgd_body ext st1 = Inr (Continue st2)"
    "sgd_loop ext (Suc n) sta = Inr st2" by blast
  with b(1) show ?case by simp
qed

lemma sgd_run_ok:
  fixes ext :: "'o externals" and s :: "'o optimizer"
  assumes "init defaults a b c = Inr s"
  shows "\<exists>st. sgd_loop ext n (sgd_start ext s name lr) = Inr st \<and> sgd_inv st \<and> tracked st \<and>
           folded st \<and>
           length (losses (self st)) = n \<and> set (losses (self st)) \<subseteq> range (energy_loss ext) \<and>
           (0 < n \<longrightarrow> best_loss st \<noteq> None)"
proof -
  let ?st0 = "sgd_start ext s name lr"
  have i: "sgd_inv ?st0" using init_aligned [OF assms] by (rule sgd_start_inv)
  have l0: "losses (self ?st0) = []"
    using assms by (auto elim: init_char simp: sgd_start_def)
  then have t: "tracked ?st0" by (simp add: tracked_def sgd_start_def)
  have f: "folded ?st0" using l0 by (simp add: folded_def sgd_start_def)
  from sgd_loop_ok [OF i, of ext n] obtain st where
    st: "sgd_loop ext n ?st0 = Inr st" "sgd_inv st"
    "length (losses (self st)) = length (losses (self ?st0)) + n"
    "set (losses (self st)) \<subseteq> set (losses (self ?st0)) \<union> range (energy_loss ext)"
    "tracked ?st0 \<longrightarrow> tracked st" "0 < n \<longrightarrow> best_loss st \<noteq> None" by blast
  have "folded st" using i f st(1) by (rule sgd_loop_folded)
  with st t l0 show ?thesis by simp
qed

lemma params_nonempty:
  fixes s :: "'o optimizer"
  assumes "init defaults a b c = Inr s" "a \<or> b \<or> c"
  shows "params s \<noteq> []"
proof -
  from assms(1) have ks: "keys_to_optimize s = init_keys a b c" by (auto elim: init_char)
  from assms(2) have "init_keys a b c \<noteq> []"
    by (cases a; cases b; cases c) (simp_all add: init_keys_def)
  with init_aligned [OF assms(1)] ks show ?thesis
    by (auto simp: aligned_def length_slots)
qed

lemma run_first_order_ok:
  fixes ext :: "'o externals" and s :: "'o optimizer"
  assumes "init defaults a b c = Inr s" "\<not> constructor_fails ext name lr (params s)"
  shows "run_first_order ext defaults a b c name lr n = sgd_loop ext n (sgd_start ext s name lr)"
  using assms by (simp add: run_first_order_def)

lemma optimize_unbound:
  fixes ext :: "'o externals" and s :: "'o optimizer"
  assumes "aligned s" "name \<noteq> ''SGD''" "name \<noteq> ''adam''"
    "name = ''LBFGS'' \<longrightarrow> \<not> constructor_fails ext name lr (params s)"
  shows "optimize ext s name lr steps = Inl UnboundLocalError"
proof (cases "name = ''LBFGS''")
  case True
  let ?s0 = "s\<lparr>build_params_history := [params s],
                 opt := Some (new_optimizer ext name lr (params s))\<rparr>"
  have "aligned ?s0" "opt ?s0 \<noteq> None" using assms(1) by (simp_all add: aligned_def)
  then have "\<exists>s'. lbfgs_loop ext steps ?s0 = Inr s'" by (rule lbfgs_loop_ok)
  then obtain s' where "lbfgs_loop ext steps ?s0 = Inr s'" by blast
  with True assms(4) show ?thesis by (simp add: optimize_def)
next
  case False
  with assms(2,3) show ?thesis by (simp add: optimize_def)
qed

subsection \<open>What the scatter writes\<close>

lemma targets_disjoint:
  "k \<in> {bond_lengths, thetas, chis} \<Longrightarrow> k' \<in> {bond_lengths, thetas, chis} \<Longrightarrow> k \<noteq> k' \<Longrightarrow>
   targets k \<inter> targets k' = {}"
  by (auto simp: targets_def)

lemma written_cong:
  "(\<And>k'. k' \<in> targets k \<Longrightarrow> bp' r k' = bp r k') \<Longrightarrow> written bp' (r, k) p = written bp (r, k) p"
  by (simp add: written_def targets_def)

lemma scatter_one_written: "written (scatter_one bp r k p) (r, k) p"
  by (simp add: scatter_one_def written_def setitem_def to_sin_cos_def)

lemma scatter_one_frame: "r' \<noteq> r \<or> k' \<notin> targets k \<Longrightarrow> scatter_one bp r k p r' k' = bp r' k'"
  by (auto simp: scatter_one_def targets_def setitem_def to_sin_cos_def)

lemma update_keys_Cons:
  "i < length ps \<Longrightarrow>
   update_keys r (k # ks) (Some ps) (bp, i) =
   update_keys r ks (Some ps) (scatter_one bp r k (ps ! i), Suc i)"
  by (simp add: subscript_def scatter_one_def)

lemma update_keys_written:
  assumes "selectable ks" "i + length ks \<le> length ps"
  shows "\<exists>bp'. update_keys r ks (Some ps) (bp, i) = Inr (bp', i + length ks) \<and>
           list_all2 (written bp') (map (\<lambda>k. (r, k)) ks) (take (length ks) (drop i ps)) \<and>
           (\<forall>r' k'. r' \<noteq> r \<or> k' \<notin> \<Union> (targets ` set ks) \<longrightarrow> bp' r' k' = bp r' k')"
  using assms
proof (induction ks arbitrary: bp i)
  case Nil
  then show ?case by simp
next
  case (Cons k ks)
  from Cons.prems have i: "i < length ps" and le: "Suc i + length ks \<le> length ps"
    and sel: "selectable ks" and k: "k \<notin> set ks" "k \<in> {bond_lengths, thetas, chis}"
    and ks: "set ks \<subseteq> {bond_lengths, thetas, chis}"
    by (simp_all add: selectable_def)
  let ?bp1 = "scatter_one bp r k (ps ! i)"
  from Cons.IH [OF sel le, of ?bp1] obtain bp' where
    u: "update_keys r ks (Some ps) (?bp1, Suc i) = Inr (bp', Suc i + length ks)"
    and w: "list_all2 (written bp') (map (\<lambda>k. (r, k)) ks) (take (length ks) (drop (Suc i) ps))"
    and f: "\<And>r' k'. r' \<noteq> r \<or> k' \<notin> \<Union> (targets ` set ks) \<Longrightarrow> bp' r' k' = ?bp1 r' k'"
    by blast
  have d: "targets k \<inter> \<Union> (targets ` set ks) = {}"
    using targets_disjoint [OF k(2)] k(1) ks by blast
  have "written bp' (r, k) (ps ! i) = written ?bp1 (r, k) (ps ! i)"
    by (rule written_cong) (use d f in blast)
  then have w0: "written bp' (r, k) (ps ! i)" by (simp add: scatter_one_written)
  have "take (length (k # ks)) (drop i ps) = ps ! i # take (length ks) (drop (Suc i) ps)"
    using i by (simp add: Cons_nth_drop_Suc [symmetric])
  then have "list_all2 (written bp') (map (\<lambda>k. (r, k)) (k # ks)) (take (length (k # ks)) (drop i ps))"
    using w w0 by simp
  moreover have "update_keys r (k # ks) (Some ps) (bp, i) = Inr (bp', i + length (k # ks))"
  proof -
    have "update_keys r (k # ks) (Some ps) (bp, i) = update_keys r ks (Some ps) (?bp1, Suc i)"
      using i by (rule update_keys_Cons)
    also have "\<dots> = Inr (bp', i + length (k # ks))" using u by simp
    finally show ?thesis .
  qed
  moreover have "\<forall>r' k'. r' \<noteq> r \<or> k' \<notin> \<Union> (targets ` set (k # ks)) \<longrightarrow> bp' r' k' = bp r' k'"
    using f scatter_one_frame [of _ r _ k bp "ps ! i"] by auto
  ultimately show ?case by blast
qed

lemma update_roots_written:
  assumes "selectable ks" "distinct rs" "i + length rs * length ks \<le> length ps"
  shows "\<exists>bp'. update_roots rs ks (Some ps) (bp, i) = Inr (bp', i + length rs * length ks) \<and>
           list_all2 (written bp') (concat (map (\<lambda>r. map (\<lambda>k. (r, k)) ks) rs))
             (take (length rs * length ks) (drop i ps)) \<and>
           (\<forall>r' k'. r' \<notin> set rs \<or> k' \<notin> \<Union> (targets ` set ks) \<longrightarrow> bp' r' k' = bp r' k')"
  using assms(2,3)
proof (induction rs arbitrary: bp i)
  case Nil
  then show ?case by simp
next
  case (Cons r rs)
  let ?L = "length ks"
  from Cons.prems have le1: "i + ?L \<le> length ps"
    and le2: "(i + ?L) + length rs * ?L \<le> length ps"
    and r: "r \<notin> set rs" and d: "distinct rs" by simp_all
  from update_keys_written [OF assms(1) le1, of r bp] obtain bp1 where
    u1: "update_keys r ks (Some ps) (bp, i) = Inr (bp1, i + ?L)"
    and w1: "list_all2 (written bp1) (map (\<lambda>k. (r, k)) ks) (take ?L (drop i ps))"
    and f1: "\<And>r' k'. r' \<noteq> r \<or> k' \<notin> \<Union> (targets ` set ks) \<Longrightarrow> bp1 r' k' = bp r' k'"
    by blast
  from Cons.IH [OF d le2, of bp1] obtain bp' where
    u2: "update_roots rs ks (Some ps) (bp1, i + ?L) = Inr (bp', i + ?L + length rs * ?L)"
    and w2: "list_all2 (written bp') (concat (map (\<lambda>r. map (\<lambda>k. (r, k)) ks) rs))
               (take (length rs * ?L) (drop (i + ?L) ps))"
    and f2: "\<And>r' k'. r' \<notin> set rs \<or> k' \<notin> \<Union> (targets ` set ks) \<Longrightarrow> bp' r' k' = bp1 r' k'"
    by blast
  have "written bp' sl p = written bp1 sl p" if "sl \<in> set (map (\<lambda>k. (r, k)) ks)" for sl p
  proof -
    from that obtain k where sl: "sl = (r, k)" by auto
    show ?thesis unfolding sl by (rule written_cong) (simp add: f2 r)
  qed
  with w1 have w1': "list_all2 (written bp') (map (\<lambda>k. (r, k)) ks) (take ?L (drop i ps))"
    by (auto elim!: list_all2_mono dest: list_all2_lengthD simp: list_all2_conv_all_nth)
  have t: "take (length (r # rs) * ?L) (drop i ps) =
           take ?L (drop i ps) @ take (length rs * ?L) (drop (i + ?L) ps)"
    by (simp add: take_add add.commute)
  have "list_all2 (written bp') (concat (map (\<lambda>r. map (\<lambda>k. (r, k)) ks) (r # rs)))
          (take (length (r # rs) * ?L) (drop i ps))"
    unfolding t using w1' w2 by (simp add: list_all2_appendI)
  moreover have "update_roots (r # rs) ks (Some ps) (bp, i) = Inr (bp', i + length (r # rs) * ?L)"
    using u1 u2 by (simp add: add.assoc)
  moreover have "\<forall>r' k'. r' \<notin> set (r # rs) \<or> k' \<notin> \<Union> (targets ` set ks) \<longrightarrow> bp' r' k' = bp r' k'"
    using f1 f2 by auto
  ultimately show ?case by blast
qed

lemma update_complete_written:
  assumes "selectable ks" "length qs = length (slots ks)"
  shows "\<exists>bp'. update_complete_build_params_with_optimized_params ks bp (Some qs) = Inr bp' \<and>
           list_all2 (written bp') (slots ks) qs \<and>
           (\<forall>r k'. k' \<notin> \<Union> (targets ` set ks) \<longrightarrow> bp' r k' = bp r k')"
proof -
  have l: "length qs = length [N, CA, C] * length ks" using assms(2) by (simp add: slots_def)
  then have "0 + length [N, CA, C] * length ks \<le> length qs" by simp
  from update_roots_written [OF assms(1) _ this, of bp] obtain bp' where
    u: "update_roots [N, CA, C] ks (Some qs) (bp, 0) = Inr (bp', 0 + length [N, CA, C] * length ks)"
    and w: "list_all2 (written bp') (concat (map (\<lambda>r. map (\<lambda>k. (r, k)) ks) [N, CA, C]))
             (take (length [N, CA, C] * length ks) (drop 0 qs))"
    and f: "\<And>r' k'. r' \<notin> set [N, CA, C] \<or> k' \<notin> \<Union> (targets ` set ks) \<Longrightarrow> bp' r' k' = bp r' k'"
    by auto
  have "update_complete_build_params_with_optimized_params ks bp (Some qs) = Inr bp'"
    unfolding update_complete_build_params_with_optimized_params_def u by simp
  moreover have "list_all2 (written bp') (slots ks) qs"
    using w l unfolding slots_def by simp
  ultimately show ?thesis using f by blast
qed

lemma selectable_init_keys: "selectable (init_keys a b c)"
  by (simp add: selectable_def init_keys_def)

lemma slots_product: "slots ks = List.product [N, CA, C] ks"
  by (simp add: slots_def)

lemma set_slots: "set (slots ks) = UNIV \<times> set ks"
  using root_atom_UNIV by (auto simp: slots_def)

lemma angles_roundtrip: "list_all2 same_angle (map2 atan2 (map sin xs) (map cos xs)) xs"
  by (induction xs) (simp_all add: same_angle_def atan2_sin_cos)

lemma written_extracted:
  assumes "create_param_list_from_build_params ks bp = Inr (bp1, ps)"
    and "list_all2 (written bp2) (slots ks) ps" and "k \<in> set ks"
  shows "written bp2 (r, k) (extracted bp (r, k))"
proof -
  have "ps = map (extracted bp) (slots ks)" using assms(1) by (rule create_param_list_char(1))
  with assms(2) have "\<forall>sl\<in>set (slots ks). written bp2 sl (extracted bp sl)"
    by (simp add: list_all2_map2 list_all2_same)
  moreover have "(r, k) \<in> set (slots ks)" using assms(3) by (simp add: set_slots)
  ultimately show ?thesis by blast
qed

lemma vals_extracted: "vals (extracted bp (r, k)) = vals (the (bp r k))"
  by (simp add: extracted_def set_requires_grad_def)

lemma written_angle:
  assumes "written bp2 (r, k) p" "(k, sk, ck) \<in> {(thetas, sthetas, cthetas), (chis, schis, cchis)}"
  shows "list_all2 same_angle (angles_of bp2 r sk ck) (vals p)"
  using assms angles_roundtrip [of "vals p"]
  by (auto simp: written_def angles_of_def torch_sin_def torch_cos_def)

lemma init_keys_filter:
  "init_keys a b c =
     filter (\<lambda>k. k = bond_lengths \<and> a \<or> k = thetas \<and> b \<or> k = chis \<and> c)
       [bond_lengths, thetas, chis]"
  by (simp add: init_keys_def)

lemma requires_grad_extracted: "requires_grad (extracted bp sl)"
  by (cases sl) (simp add: extracted_def set_requires_grad_def)

lemma stored_extracted:
  assumes "create_param_list_from_build_params ks bp = Inr (bp1, ps)" "sl \<in> set (slots ks)"
  shows "bp1 (fst sl) (snd sl) = Some (extracted bp sl)"
proof -
  obtain r k where sl: "sl = (r, k)" by (cases sl)
  with assms(2) have k: "k \<in> set ks" by (simp add: set_slots)
  from create_param_list_char(3) [OF assms(1) k, of r] obtain t where "bp r k = Some t" by auto
  with create_param_list_char(2) [OF assms(1), of r k] k sl show ?thesis
    by (simp add: extracted_def)
qed

subsection \<open>The angular parameters of a constructed optimiser\<close>

lemma init_angles_present:
  "init_angles rs ks bp = Inr bp' \<Longrightarrow> r \<in> set rs \<Longrightarrow>
   (thetas \<in> set ks \<longrightarrow> bp r sthetas \<noteq> None \<and> bp r cthetas \<noteq> None) \<and>
   (chis \<in> set ks \<longrightarrow> bp r schis \<noteq> None \<and> bp r cchis \<noteq> None)"
proof (induction rs arbitrary: bp)
  case Nil
  then show ?case by simp
next
  case (Cons r0 rs)
  let ?t = "if thetas \<in> set ks then init_angle bp r0 thetas sthetas cthetas else Inr bp"
  from Cons.prems obtain bp1 where b1: "?t = Inr bp1" by (cases ?t) auto
  let ?c = "if chis \<in> set ks then init_angle bp1 r0 chis schis cchis else Inr bp1"
  from Cons.prems b1 obtain bp2 where b2: "?c = Inr bp2" by (cases ?c) auto
  from Cons.prems b1 b2 have rest: "init_angles rs ks bp2 = Inr bp'" by simp
  note st = init_angles_step [OF b1 b2]
  show ?case
  proof (cases "r = r0")
    case True
    have p1: "thetas \<in> set ks \<longrightarrow> bp r0 sthetas \<noteq> None \<and> bp r0 cthetas \<noteq> None"
      using b1 init_angle_char [of bp r0 thetas sthetas cthetas bp1] by auto
    have "chis \<in> set ks \<longrightarrow> bp1 r0 schis \<noteq> None \<and> bp1 r0 cchis \<noteq> None"
      using b2 init_angle_char [of bp1 r0 chis schis cchis bp2] by auto
    moreover have "bp1 r0 schis = bp r0 schis" "bp1 r0 cchis = bp r0 cchis"
      using b1 init_angle_char [of bp r0 thetas sthetas cthetas bp1]
      by (auto simp: setitem_def split: if_splits)
    ultimately show ?thesis using p1 True by simp
  next
    case False
    with Cons.prems have "r \<in> set rs" by simp
    from Cons.IH [OF rest this] show ?thesis by (simp add: st)
  qed
qed

lemma init_angular:
  fixes s :: "'o optimizer"
  assumes "init defaults a b c = Inr s" "(k, sk, ck) \<in> angular" "k \<in> set (init_keys a b c)"
  shows "defaults r sk \<noteq> None \<and> defaults r ck \<noteq> None \<and>
         build_params s r k = Some (set_requires_grad (raw_angle defaults r sk ck)) \<and>
         set_requires_grad (raw_angle defaults r sk ck) \<in> set (params s) \<and>
         build_params s r sk = defaults r sk \<and> build_params s r ck = defaults r ck"
proof -
  let ?ks = "init_keys a b c"
  from assms(1) obtain bp1 where
    ia: "init_angles [N, CA, C] ?ks defaults = Inr bp1"
    and cr: "create_param_list_from_build_params ?ks bp1 = Inr (build_params s, params s)"
    by (rule init_char)
  note all = init_angles_all [OF ia]
  have raw: "bp1 r k = Some (raw_angle defaults r sk ck)"
    using assms(2,3) by (auto simp: all angular_def)
  have nk: "sk \<notin> set ?ks" "ck \<notin> set ?ks" "sk \<noteq> thetas" "sk \<noteq> chis" "ck \<noteq> thetas" "ck \<noteq> chis"
    using assms(2) by (auto simp: angular_def set_init_keys)
  have "defaults r sk \<noteq> None \<and> defaults r ck \<noteq> None"
    using init_angles_present [OF ia in_roots, of r] assms(2,3) by (auto simp: angular_def)
  moreover have "build_params s r k = Some (set_requires_grad (raw_angle defaults r sk ck))"
    using create_param_list_char(2) [OF cr, of r k] assms(3) raw by simp
  moreover have "set_requires_grad (raw_angle defaults r sk ck) \<in> set (params s)"
  proof -
    have "(r, k) \<in> set (slots ?ks)" using assms(3) by (simp add: set_slots)
    then have "extracted bp1 (r, k) \<in> set (map (extracted bp1) (slots ?ks))" by simp
    then show ?thesis using create_param_list_char(1) [OF cr] raw by (simp add: extracted_def)
  qed
  moreover have "build_params s r sk = defaults r sk" "build_params s r ck = defaults r ck"
    using create_param_list_char(2) [OF cr] nk by (simp_all add: all)
  ultimately show ?thesis by blast
qed

lemma init_scatter:
  fixes s :: "'o optimizer"
  assumes "init defaults a b c = Inr s"
  shows "\<exists>bp'. update_complete_build_params_with_optimized_params
                 (keys_to_optimize s) (build_params s) (Some (params s)) = Inr bp' \<and>
           (\<forall>r k sk ck. (k, sk, ck) \<in> angular \<and> k \<in> set (init_keys a b c) \<longrightarrow>
              bp' r sk = Some (torch_sin (set_requires_grad (raw_angle defaults r sk ck))) \<and>
              bp' r ck = Some (torch_cos (set_requires_grad (raw_angle defaults r sk ck))))"
proof -
  let ?ks = "init_keys a b c"
  from assms(1) obtain bp1 where
    ia: "init_angles [N, CA, C] ?ks defaults = Inr bp1"
    and cr: "create_param_list_from_build_params ?ks bp1 = Inr (build_params s, params s)"
    and ks: "keys_to_optimize s = ?ks"
    by (rule init_char)
  have len: "length (params s) = length (slots ?ks)"
    using create_param_list_char(1) [OF cr] by simp
  from update_complete_written [OF selectable_init_keys len, of "build_params s"] obtain bp' where
    u: "update_complete_build_params_with_optimized_params ?ks (build_params s) (Some (params s))
          = Inr bp'"
    and w: "list_all2 (written bp') (slots ?ks) (params s)" by blast
  have "bp' r sk = Some (torch_sin (set_requires_grad (raw_angle defaults r sk ck))) \<and>
        bp' r ck = Some (torch_cos (set_requires_grad (raw_angle defaults r sk ck)))"
    if "(k, sk, ck) \<in> angular" "k \<in> set ?ks" for r k sk ck
  proof -
    have "bp1 r k = Some (raw_angle defaults r sk ck)"
      using that by (auto simp: init_angles_all [OF ia] angular_def)
    then have "extracted bp1 (r, k) = set_requires_grad (raw_angle defaults r sk ck)"
      by (simp add: extracted_def)
    with written_extracted [OF cr w that(2), of r] that(1) show ?thesis
      by (auto simp: written_def angular_def)
  qed
  with u ks show ?thesis by auto
qed

lemma ex_store_present: "k \<in> set (init_keys a b c) \<Longrightarrow> ex_store r k \<noteq> None"
  using init_keys_cases [of a b c] by (auto simp: ex_store_def ex_defaults_def)

lemma ex_create: "\<exists>bp1 ps. create_param_list_from_build_params (init_keys a b c) ex_store = Inr (bp1, ps)"
  by (rule create_param_list_total) (rule ex_store_present)

subsection \<open>The SGD/Adam path of \<^verbatim>\<open>optimize\<close>\<close>

text \<open>
  When the optimiser can be constructed, the SGD/Adam path with a positive step budget
  ends by scattering the snapshot taken at the best loss and returns the store. With a
  budget of zero the snapshot is still \<^verbatim>\<open>None\<close> and the scatter fails on its first
  subscript.
\<close>

lemma sgd_step_keys:
  "sgd_step ext l s = Inr s' \<Longrightarrow> keys_to_optimize s' = keys_to_optimize s"
  by (auto simp: sgd_step_def Let_def overwrite_simps split: option.splits prod.splits)

lemma sgd_body_best:
  assumes "sgd_inv st" "sgd_body ext st = Inr (Continue st')"
  shows "keys_to_optimize (self st') = keys_to_optimize (self st) \<and>
         (best_kept st \<longrightarrow> best_kept st')"
proof -
  let ?s = "self st"
  let ?s1 = "?s\<lparr>build_params_history := build_params_history ?s @ [map detach (params ?s)]\<rparr>"
  from assms(1) have al: "length (params ?s) = length (slots (keys_to_optimize ?s))"
    by (simp add: sgd_inv_def aligned_def)
  from assms(2) obtain bp where
    up: "update_complete_build_params_with_optimized_params
          (keys_to_optimize ?s1) (build_params ?s1) (Some (params ?s)) = Inr bp"
    by (auto simp: sgd_body_def Let_def split: sum.splits)
  let ?s2 = "?s1\<lparr>build_params := bp\<rparr>"
  let ?l = "energy_loss ext bp"
  from assms(2) up obtain s3 where
    s3: "sgd_step ext ?l ?s2 = Inr s3"
    and st': "st' = st\<lparr>self := s3, best_loss := Some ?l,
                        best_params_so_far := Some (params ?s), counter := 0\<rparr> \<or>
              best_loss st \<noteq> None \<and>
              (st' = st\<lparr>self := s3, counter := counter st + 1\<rparr> \<or> st' = st\<lparr>self := s3\<rparr>)"
    by (auto simp: sgd_body_def Let_def split: sum.splits if_splits option.splits)
  have k: "keys_to_optimize s3 = keys_to_optimize ?s" using sgd_step_keys [OF s3] by simp
  from st' show ?thesis
  proof (elim disjE conjE)
    assume "st' = st\<lparr>self := s3, best_loss := Some ?l,
                      best_params_so_far := Some (params ?s), counter := 0\<rparr>"
    then show ?thesis using k al by (simp add: best_kept_def)
  next
    assume "best_loss st \<noteq> None" "st' = st\<lparr>self := s3, counter := counter st + 1\<rparr>"
    then show ?thesis using k by (auto simp: best_kept_def split: option.splits)
  next
    assume "best_loss st \<noteq> None" "st' = st\<lparr>self := s3\<rparr>"
    then show ?thesis using k by (auto simp: best_kept_def split: option.splits)
  qed
qed

lemma sgd_loop_best:
  "sgd_inv st \<Longrightarrow> best_kept st \<Longrightarrow> sgd_loop ext n st = Inr st' \<Longrightarrow>
   keys_to_optimize (self st') = keys_to_optimize (self st) \<and> best_kept st'"
proof (induction n arbitrary: st)
  case 0
  then show ?case by simp
next
  case (Suc n)
  from sgd_body_ok [OF Suc.prems(1), of ext] obtain st1 where
    b: "sgd_body ext st = Inr (Continue st1)" "sgd_inv st1" by blast
  from sgd_body_best [OF Suc.prems(1) b(1)] Suc.prems(2) have
    k: "keys_to_optimize (self st1) = keys_to_optimize (self st)" and bk: "best_kept st1" by simp_all
  from Suc.prems(3) b(1) have "sgd_loop ext n st1 = Inr st'" by simp
  from Suc.IH [OF b(2) bk this] k show ?case by simp
qed

lemma optimize_first_order:
  fixes ext :: "'o externals" and s :: "'o optimizer"
  assumes "init defaults a b c = Inr s" "name = ''SGD'' \<or> name = ''adam''" "0 < n"
    "\<not> constructor_fails ext name lr (params s)"
  shows "\<exists>st best bp. sgd_loop ext n (sgd_start ext s name lr) = Inr st \<and>
           best_params_so_far st = Some best \<and>
           update_complete_build_params_with_optimized_params
             (keys_to_optimize s) (build_params (self st)) (Some best) = Inr bp \<and>
           list_all2 (written bp) (slots (keys_to_optimize s)) best \<and>
           optimize ext s name lr n = Inr ((self st)\<lparr>build_params := bp\<rparr>, bp)"
proof -
  let ?st0 = "sgd_start ext s name lr"
  have i: "sgd_inv ?st0" using init_aligned [OF assms(1)] by (rule sgd_start_inv)
  have bk0: "best_kept ?st0" by (simp add: best_kept_def sgd_start_def)
  from assms(1) have ks: "keys_to_optimize s = init_keys a b c" by (auto elim: init_char)
  from sgd_loop_ok [OF i, of ext n] assms(3) obtain st where
    l: "sgd_loop ext n ?st0 = Inr st" and bl: "best_loss st \<noteq> None" by auto
  from sgd_loop_best [OF i bk0 l] have
    k: "keys_to_optimize (self st) = keys_to_optimize s" and bk: "best_kept st"
    by (simp_all add: sgd_start_def)
  from bk bl obtain best where
    best: "best_params_so_far st = Some best" "length best = length (slots (init_keys a b c))"
    using k ks by (auto simp: best_kept_def split: option.splits)
  from update_complete_written [OF selectable_init_keys best(2), of "build_params (self st)"]
  obtain bp where
    u: "update_complete_build_params_with_optimized_params
          (init_keys a b c) (build_params (self st)) (Some best) = Inr bp"
    and w: "list_all2 (written bp) (slots (init_keys a b c)) best" by blast
  have "optimize ext s name lr n = Inr ((self st)\<lparr>build_params := bp\<rparr>, bp)"
    using assms(2,4) l best(1) u k ks by (auto simp: optimize_def)
  with l best(1) u w ks show ?thesis by auto
qed

lemma optimize_zero_steps:
  fixes ext :: "'o externals" and s :: "'o optimizer"
  assumes "init defaults a b c = Inr s" "name = ''SGD'' \<or> name = ''adam''" "a \<or> b \<or> c"
    "\<not> refuses ext name lr (params s)"
  shows "optimize ext s name lr 0 = Inl TypeError"
proof -
  from assms(1) have ks: "keys_to_optimize s = init_keys a b c" by (auto elim: init_char)
  from assms(3) obtain k rest where "init_keys a b c = k # rest"
    by (cases a; cases b; cases c) (simp_all add: init_keys_def)
  then have "update_complete_build_params_with_optimized_params (init_keys a b c) bp None
             = Inl TypeError" for bp
    by (simp add: update_complete_build_params_with_optimized_params_def subscript_def)
  moreover have "\<not> constructor_fails ext name lr (params s)"
    using params_nonempty [OF assms(1,3)] assms(4) by (simp add: constructor_fails_def)
  ultimately show ?thesis using assms(2) ks by (auto simp: optimize_def sgd_start_def)
qed

subsection \<open>The sums computed by \<^verbatim>\<open>openmm_loss\<close>\<close>

lemma protein_loss_char:
  "protein_loss ext opts protein =
     (if sigmoid_divides_by_zero opts then Inl ZeroDivisionError
      else Inr (transformed_energy opts protein (openmm_energy ext protein),
                openmm_energy ext protein))"
  by (cases "modified_sigmoid_params opts")
    (simp add: protein_loss_def sigmoid_divides_by_zero_def transformed_energy_def
      spec_regularize_def spec_length_scale_def spec_squash_def Let_def)

lemma energy_loop_sum:
  assumes "\<not> sigmoid_divides_by_zero opts"
  shows "energy_loop ext opts ps (t, r) =
     Inr (t + (\<Sum>p\<leftarrow>filter (\<lambda>p. CHR ''X'' \<notin> set (seq p)) ps.
                transformed_energy opts p (openmm_energy ext p)),
          r + (\<Sum>p\<leftarrow>filter (\<lambda>p. CHR ''X'' \<notin> set (seq p)) ps. openmm_energy ext p))"
proof (induction ps arbitrary: t r)
  case Nil
  then show ?case by simp
next
  case (Cons p ps)
  show ?case
  proof (cases "CHR ''X'' \<in> set (seq p)")
    case True
    then show ?thesis by (simp add: Cons.IH)
  next
    case False
    have "protein_loss ext opts p =
            Inr (transformed_energy opts p (openmm_energy ext p), openmm_energy ext p)"
      using assms by (simp add: protein_loss_char)
    with False show ?thesis by (simp add: Cons.IH)
  qed
qed

lemma generated:
  "List.map_filter (\<lambda>p. p) (generate_scnproteins_from_model_reps reps gt) =
   map (make_protein gt) (filter (\<lambda>x. CHR ''X'' \<notin> set (sample_seq x)) (samples reps))"
proof -
  have "List.map_filter (\<lambda>p. p) (map (generate_one gt) xs) =
        map (make_protein gt) (filter (\<lambda>x. CHR ''X'' \<notin> set (sample_seq x)) xs)" for xs
    by (induction xs) (simp_all add: generate_one_def make_protein_def Let_def)
  then show ?thesis by (simp add: generate_scnproteins_from_model_reps_def)
qed

lemma seq_add_hydrogens: "seq (add_hydrogens ext (make_protein gt x)) = sample_seq x"
  by (simp add: add_hydrogens_def make_protein_def)

lemma openmm_loss_char:
  assumes "final_atom_positions_shape reps = sh @ [37, 3]" "\<not> sigmoid_divides_by_zero opts"
  shows "openmm_loss ext opts reps =
     (let known = filter (\<lambda>x. CHR ''X'' \<notin> set (sample_seq x)) (samples reps) in
      Inr (\<Sum>x\<leftarrow>known. transformed_energy opts (add_hydrogens ext (make_protein False x))
                        (openmm_energy ext (add_hydrogens ext (make_protein False x))),
           map (make_protein False) known,
           map (make_protein True) known,
           \<Sum>x\<leftarrow>known. openmm_energy ext (add_hydrogens ext (make_protein False x))))"
proof -
  let ?known = "filter (\<lambda>x. CHR ''X'' \<notin> set (sample_seq x)) (samples reps)"
  let ?h = "\<lambda>x. add_hydrogens ext (make_protein False x)"
  have f: "filter (\<lambda>p. CHR ''X'' \<notin> set (seq p)) (map ?h ?known) = map ?h ?known"
    by (rule filter_True) (auto simp: seq_add_hydrogens)
  have g: "List.map_filter (\<lambda>p. p) (generate_scnproteins_from_model_reps reps gt) =
           map (make_protein gt) ?known" for gt
    by (rule generated)
  have e: "energy_loop ext opts (map (add_hydrogens ext) (map (make_protein False) ?known)) (0, 0) =
           Inr (\<Sum>x\<leftarrow>?known. transformed_energy opts (?h x) (openmm_energy ext (?h x)),
                \<Sum>x\<leftarrow>?known. openmm_energy ext (?h x))"
    unfolding energy_loop_sum [OF assms(2)] map_map o_def f by (simp add: o_def)
  have sh: "length (final_atom_positions_shape reps) = length sh + 2"
    "final_atom_positions_shape reps ! (length (final_atom_positions_shape reps) - 1) = 3"
    "final_atom_positions_shape reps ! (length (final_atom_positions_shape reps) - 2) = 37"
    using assms(1) by (simp_all add: nth_append)
  have "\<not> length (final_atom_positions_shape reps) < 1"
    "\<not> length (final_atom_positions_shape reps) < 2" using sh(1) by simp_all
  then show ?thesis
    unfolding openmm_loss_def Let_def g e using sh(2,3) by simp
qed

section \<open>The claims\<close>

subsection \<open>C1: stopping on a plateau\<close>

text \<open>
  C1. The claim asks the loop to stop within \<open>patience + 1\<close> iterations of the start of a
  plateau. With an energy that is constantly 1 and a budget of 100 steps the plateau
  starts at the second iteration, yet the loop records all 100 losses and never prints
  ``Stopping early.'': the counter stops growing at \<open>patience\<close>, and the test
  \<^verbatim>\<open>counter > patience\<close> is never met.
\<close>

theorem plateau_runs_full_budget:
  "\<exists>st. run_first_order ex_flat ex_defaults True True True ''SGD'' (1 / 100000) 100 = Inr st \<and>
        losses (self st) = replicate 100 1 \<and> stdout st = []"
proof -
  obtain s :: "unit optimizer" where s: "init ex_defaults True True True = Inr s"
    using ex_init by blast
  have "\<not> constructor_fails ex_flat ''SGD'' (1 / 100000) (params s)"
    using params_nonempty [OF s] by (simp add: constructor_fails_def ex_flat_def)
  note run = run_first_order_ok [OF s this, of 100]
  from sgd_run_ok [OF s, where ext = ex_flat and n = 100 and name = "''SGD''"
      and lr = "1 / 100000"] obtain st where
    st: "run_first_order ex_flat ex_defaults True True True ''SGD'' (1 / 100000) 100 = Inr st"
      "sgd_inv st" "length (losses (self st)) = 100"
      "set (losses (self st)) \<subseteq> range (energy_loss ex_flat)" unfolding run by blast
  have "range (energy_loss ex_flat) = {1}" by (auto simp: ex_flat_def)
  with st(4) have "\<forall>l\<in>set (losses (self st)). l = 1" by auto
  then have "replicate (length (losses (self st))) 1 = losses (self st)"
    by (rule replicate_length_same)
  with st(3) have "losses (self st) = replicate 100 1" by simp
  with st(1,2) show ?thesis by (auto simp: sgd_inv_def)
qed

subsection \<open>C2: which tensor of an angular group carries the gradient\<close>

text \<open>
  C2, as stated, fails. After the construction with all three groups selected, the raw
  tensor \<^verbatim>\<open>thetas\<close> at \<^verbatim>\<open>'N'\<close> requires gradient, and the stored sine and cosine
  do not: the flags are the other way round.
\<close>

theorem raw_angle_requires_grad:
  "map_sum id (\<lambda>s. grad_flags s N [thetas, sthetas, cthetas])
     (init ex_defaults True True True :: error + unit optimizer)
   = Inr [Some True, Some False, Some False]"
  by (simp add: grad_flags_def eval_defs)

text \<open>
  C2, amended. For every angular group selected for optimisation and every root atom,
  the constructor finds the stored sine and cosine, sets the raw angle tensor to their
  \<open>atan2\<close>, marks that raw tensor as requiring gradient and puts it into the parameter
  list; the stored sine and cosine are left as they were. A scatter of the parameter
  list then succeeds and stores the sine and the cosine of the raw angle tensor.
\<close>

theorem raw_angle_is_the_parameter:
  fixes s :: "'o optimizer"
  assumes "init defaults a b c = Inr s"
  shows "\<exists>bp'. update_complete_build_params_with_optimized_params
                 (keys_to_optimize s) (build_params s) (Some (params s)) = Inr bp' \<and>
           (\<forall>r k sk ck. (k, sk, ck) \<in> angular \<and> k \<in> set (init_keys a b c) \<longrightarrow>
              defaults r sk \<noteq> None \<and> defaults r ck \<noteq> None \<and>
              build_params s r k =
                Some \<lparr>vals = angles_of defaults r sk ck, requires_grad = True\<rparr> \<and>
              \<lparr>vals = angles_of defaults r sk ck, requires_grad = True\<rparr> \<in> set (params s) \<and>
              build_params s r sk = defaults r sk \<and> build_params s r ck = defaults r ck \<and>
              bp' r sk = Some \<lparr>vals = map sin (angles_of defaults r sk ck), requires_grad = True\<rparr> \<and>
              bp' r ck = Some \<lparr>vals = map cos (angles_of defaults r sk ck), requires_grad = True\<rparr>)"
proof -
  have e: "set_requires_grad (raw_angle defaults r sk ck) =
           \<lparr>vals = angles_of defaults r sk ck, requires_grad = True\<rparr>" for r sk ck
    by (simp add: set_requires_grad_def raw_angle_def torch_atan2_def angles_of_def)
  from init_scatter [OF assms] obtain bp' where
    u: "update_complete_build_params_with_optimized_params
          (keys_to_optimize s) (build_params s) (Some (params s)) = Inr bp'"
    and w: "\<And>r k sk ck. (k, sk, ck) \<in> angular \<and> k \<in> set (init_keys a b c) \<Longrightarrow>
              bp' r sk = Some (torch_sin (set_requires_grad (raw_angle defaults r sk ck))) \<and>
              bp' r ck = Some (torch_cos (set_requires_grad (raw_angle defaults r sk ck)))"
    by blast
  have "defaults r sk \<noteq> None \<and> defaults r ck \<noteq> None \<and>
        build_params s r k = Some \<lparr>vals = angles_of defaults r sk ck, requires_grad = True\<rparr> \<and>
        \<lparr>vals = angles_of defaults r sk ck, requires_grad = True\<rparr> \<in> set (params s) \<and>
        build_params s r sk = defaults r sk \<and> build_params s r ck = defaults r ck \<and>
        bp' r sk = Some \<lparr>vals = map sin (angles_of defaults r sk ck), requires_grad = True\<rparr> \<and>
        bp' r ck = Some \<lparr>vals = map cos (angles_of defaults r sk ck), requires_grad = True\<rparr>"
    if h: "(k, sk, ck) \<in> angular \<and> k \<in> set (init_keys a b c)" for r k sk ck
    using init_angular [OF assms, of k sk ck r] w [OF h, of r] h
    by (simp add: e torch_sin_def torch_cos_def)
  with u show ?thesis by blast
qed

theorem raw_angle_is_the_parameter_witness:
  "\<exists>(s :: unit optimizer) bp'. init ex_defaults True True True = Inr s \<and>
     update_complete_build_params_with_optimized_params
       (keys_to_optimize s) (build_params s) (Some (params s)) = Inr bp' \<and>
     (thetas, sthetas, cthetas) \<in> angular \<and> thetas \<in> set (init_keys True True True) \<and>
     build_params s N thetas = Some \<lparr>vals = [0], requires_grad = True\<rparr> \<and>
     bp' N sthetas = Some \<lparr>vals = [0], requires_grad = True\<rparr> \<and>
     bp' N cthetas = Some \<lparr>vals = [1], requires_grad = True\<rparr>"
proof -
  obtain s :: "unit optimizer" where s: "init ex_defaults True True True = Inr s"
    using ex_init by blast
  have m: "(thetas, sthetas, cthetas) \<in> angular \<and> thetas \<in> set (init_keys True True True)"
    by (simp add: angular_def init_keys_def)
  have a: "angles_of ex_defaults N sthetas cthetas = [0]"
    by (simp add: angles_of_def ex_defaults_def ex_tensor_def atan2_def)
  from raw_angle_is_the_parameter [OF s] obtain bp' where
    u: "update_complete_build_params_with_optimized_params
          (keys_to_optimize s) (build_params s) (Some (params s)) = Inr bp'"
    and w: "\<forall>r k sk ck. (k, sk, ck) \<in> angular \<and> k \<in> set (init_keys True True True) \<longrightarrow>
              ex_defaults r sk \<noteq> None \<and> ex_defaults r ck \<noteq> None \<and>
              build_params s r k =
                Some \<lparr>vals = angles_of ex_defaults r sk ck, requires_grad = True\<rparr> \<and>
              \<lparr>vals = angles_of ex_defaults r sk ck, requires_grad = True\<rparr> \<in> set (params s) \<and>
              build_params s r sk = ex_defaults r sk \<and> build_params s r ck = ex_defaults r ck \<and>
              bp' r sk = Some \<lparr>vals = map sin (angles_of ex_defaults r sk ck), requires_grad = True\<rparr> \<and>
              bp' r ck = Some \<lparr>vals = map cos (angles_of ex_defaults r sk ck), requires_grad = True\<rparr>"
    by blast
  from w [rule_format, OF m, of N] a s u m show ?thesis by auto
qed

subsection \<open>C3: what \<^verbatim>\<open>optimize\<close> returns\<close>

text \<open>
  C3. The claim asks \<^verbatim>\<open>optimize\<close> to return the store for every strategy. With the
  default strategy \<^verbatim>\<open>'LBFGS'\<close> and the default budget of 100 steps the call made by
  constructing the optimiser and optimising ends in \<^verbatim>\<open>UnboundLocalError\<close> and returns
  nothing.
\<close>

theorem optimize_default_strategy_fails:
  "run_optimize ex_slow ex_defaults True True True ''LBFGS'' (1 / 100000) 100
   = Inl UnboundLocalError"
proof -
  obtain s :: "unit optimizer" where s: "init ex_defaults True True True = Inr s"
    using ex_init by blast
  have "\<not> constructor_fails ex_slow ''LBFGS'' (1 / 100000) (params s)"
    using params_nonempty [OF s] by (simp add: constructor_fails_def ex_slow_def)
  then have "optimize ex_slow s ''LBFGS'' (1 / 100000) 100 = Inl UnboundLocalError"
    using init_aligned [OF s] by (intro optimize_unbound) simp_all
  with s show ?thesis by (simp add: run_optimize_def)
qed

subsection \<open>C4: extraction followed by scatter\<close>

text \<open>
  C4. For every store and every choice of the three groups, if extraction succeeds then
  the scatter of the extracted list into the store succeeds, and afterwards, at every
  root atom: a selected bond-length tensor has its original values; the angles that the
  stored sine/cosine pair of a selected angular group stands for are the original raw
  angles up to whole turns.
\<close>

theorem scatter_extract_roundtrip:
  assumes "create_param_list_from_build_params (init_keys a b c) bp = Inr (bp1, ps)"
  shows "\<exists>bp2. update_complete_build_params_with_optimized_params (init_keys a b c) bp1 (Some ps)
                 = Inr bp2 \<and>
           (\<forall>r. (a \<longrightarrow> bp r bond_lengths \<noteq> None \<and>
                       map_option vals (bp2 r bond_lengths) = map_option vals (bp r bond_lengths)) \<and>
                (b \<longrightarrow> bp r thetas \<noteq> None \<and>
                       list_all2 same_angle (angles_of bp2 r sthetas cthetas) (vals (the (bp r thetas)))) \<and>
                (c \<longrightarrow> bp r chis \<noteq> None \<and>
                       list_all2 same_angle (angles_of bp2 r schis cchis) (vals (the (bp r chis)))))"
proof -
  let ?ks = "init_keys a b c"
  have len: "length ps = length (slots ?ks)"
    using create_param_list_char(1) [OF assms] by simp
  from update_complete_written [OF selectable_init_keys len, of bp1] obtain bp2 where
    u: "update_complete_build_params_with_optimized_params ?ks bp1 (Some ps) = Inr bp2"
    and w: "list_all2 (written bp2) (slots ?ks) ps" by blast
  note we = written_extracted [OF assms w]
  note pr = create_param_list_char(3) [OF assms]
  have "a \<longrightarrow> bp r bond_lengths \<noteq> None \<and>
            map_option vals (bp2 r bond_lengths) = map_option vals (bp r bond_lengths)" for r
  proof
    assume a
    then have k: "bond_lengths \<in> set ?ks" by (simp add: set_init_keys)
    from pr [OF k, of r] obtain t where t: "bp r bond_lengths = Some t" by auto
    from we [OF k, of r] t show "bp r bond_lengths \<noteq> None \<and>
            map_option vals (bp2 r bond_lengths) = map_option vals (bp r bond_lengths)"
      by (simp add: written_def extracted_def set_requires_grad_def)
  qed
  moreover have "b \<longrightarrow> bp r thetas \<noteq> None \<and>
            list_all2 same_angle (angles_of bp2 r sthetas cthetas) (vals (the (bp r thetas)))" for r
  proof
    assume b
    then have k: "thetas \<in> set ?ks" by (simp add: set_init_keys)
    from written_angle [OF we [OF k, of r], of sthetas cthetas] pr [OF k, of r]
    show "bp r thetas \<noteq> None \<and>
            list_all2 same_angle (angles_of bp2 r sthetas cthetas) (vals (the (bp r thetas)))"
      by (simp add: vals_extracted)
  qed
  moreover have "c \<longrightarrow> bp r chis \<noteq> None \<and>
            list_all2 same_angle (angles_of bp2 r schis cchis) (vals (the (bp r chis)))" for r
  proof
    assume c
    then have k: "chis \<in> set ?ks" by (simp add: set_init_keys)
    from written_angle [OF we [OF k, of r], of schis cchis] pr [OF k, of r]
    show "bp r chis \<noteq> None \<and>
            list_all2 same_angle (angles_of bp2 r schis cchis) (vals (the (bp r chis)))"
      by (simp add: vals_extracted)
  qed
  ultimately show ?thesis using u by blast
qed

theorem scatter_extract_roundtrip_witness:
  "\<exists>bp1 ps bp2. create_param_list_from_build_params (init_keys True True True) ex_store = Inr (bp1, ps) \<and>
     update_complete_build_params_with_optimized_params (init_keys True True True) bp1 (Some ps)
       = Inr bp2 \<and>
     map_option vals (bp2 CA bond_lengths) = Some [1] \<and>
     list_all2 same_angle (angles_of bp2 CA sthetas cthetas) [7] \<and>
     list_all2 same_angle (angles_of bp2 CA schis cchis) [0]"
proof -
  obtain bp1 ps where
    c: "create_param_list_from_build_params (init_keys True True True) ex_store = Inr (bp1, ps)"
    using ex_create by blast
  from scatter_extract_roundtrip [OF c] obtain bp2 where
    u: "update_complete_build_params_with_optimized_params (init_keys True True True) bp1 (Some ps)
          = Inr bp2"
    and r: "\<forall>r. (True \<longrightarrow> ex_store r bond_lengths \<noteq> None \<and>
                       map_option vals (bp2 r bond_lengths) = map_option vals (ex_store r bond_lengths)) \<and>
                (True \<longrightarrow> ex_store r thetas \<noteq> None \<and>
                       list_all2 same_angle (angles_of bp2 r sthetas cthetas) (vals (the (ex_store r thetas)))) \<and>
                (True \<longrightarrow> ex_store r chis \<noteq> None \<and>
                       list_all2 same_angle (angles_of bp2 r schis cchis) (vals (the (ex_store r chis))))"
    by blast
  from r [rule_format, of CA] have
    "map_option vals (bp2 CA bond_lengths) = Some [1]"
    "list_all2 same_angle (angles_of bp2 CA sthetas cthetas) [7]"
    "list_all2 same_angle (angles_of bp2 CA schis cchis) [0]"
    by (simp_all add: ex_store_def ex_defaults_def ex_tensor_def)
  with c u show ?thesis by blast
qed

subsection \<open>C5: the best loss\<close>

text \<open>
  C5, as stated, fails: after the losses 1 and 0.99995 the best loss is still 1, because
  the second loss does not improve on the first by more than \<open>epsilon\<close>.
\<close>

theorem best_loss_not_minimum:
  "map_sum id best_is_minimum
     (run_first_order ex_slow ex_defaults True False False ''adam'' (1 / 1000) 2)
   = Inr False"
  by (simp add: run_first_order_def constructor_fails_def best_is_minimum_def eval_defs
      ex_slow_def eval_nat_numeral)

text \<open>
  C5, amended. Run the SGD/Adam loop on a freshly constructed optimiser for \<open>n\<close> and for
  \<open>n + 1\<close> iterations. The longer run records the losses of the shorter one and one more
  loss \<open>l\<close>, \<open>n + 1\<close> in all. Its best loss comes from the best loss of the shorter run by
  the rule \<open>track_best\<close>: \<open>l\<close> replaces the best loss when it is lower by more than
  \<open>epsilon\<close> and leaves it otherwise; so the best loss is what this rule gives on all the
  recorded losses in their order. It is one of the recorded losses, and it lies between
  their minimum and their minimum plus \<open>epsilon\<close>.
\<close>

theorem best_loss_within_epsilon:
  fixes ext :: "'o externals" and s :: "'o optimizer"
  assumes "init defaults a b c = Inr s"
  shows "\<exists>st st' l bl.
           sgd_loop ext n (sgd_start ext s name lr) = Inr st \<and>
           sgd_loop ext (Suc n) (sgd_start ext s name lr) = Inr st' \<and>
           losses (self st') = losses (self st) @ [l] \<and>
           length (losses (self st')) = Suc n \<and>
           best_loss st' = track_best (best_loss st) l \<and>
           best_loss st' = foldl track_best None (losses (self st')) \<and>
           best_loss st' = Some bl \<and> bl \<in> set (losses (self st')) \<and>
           Min (set (losses (self st'))) \<le> bl \<and>
           bl \<le> Min (set (losses (self st'))) + epsilon"
proof -
  let ?st0 = "sgd_start ext s name lr"
  have i: "sgd_inv ?st0" using init_aligned [OF assms] by (rule sgd_start_inv)
  from sgd_loop_last [OF i, of ext n] obtain st st' where
    r: "sgd_loop ext n ?st0 = Inr st" "sgd_inv st" "sgd_body ext st = Inr (Continue st')"
      "sgd_loop ext (Suc n) ?st0 = Inr st'" by blast
  from sgd_body_track [OF r(2,3)] obtain l where
    l: "losses (self st') = losses (self st) @ [l]" "best_loss st' = track_best (best_loss st) l"
    by blast
  from sgd_run_ok [OF assms, where ext = ext and n = "Suc n" and name = name and lr = lr] r(4)
  have t: "tracked st'" and f: "folded st'" and len: "length (losses (self st')) = Suc n"
    and ne: "best_loss st' \<noteq> None" by auto
  from ne obtain bl where bl: "best_loss st' = Some bl" by auto
  let ?L = "losses (self st')"
  from t bl have m: "bl \<in> set ?L" and a: "list_all (\<lambda>l. bl \<le> l + epsilon) ?L"
    by (simp_all add: tracked_def)
  have "set ?L \<noteq> {}" using m by auto
  then have "Min (set ?L) \<in> set ?L" by (intro Min_in) simp_all
  then have up: "bl \<le> Min (set ?L) + epsilon" using a by (simp add: list_all_iff)
  have lo: "Min (set ?L) \<le> bl" using m by simp
  from f have fo: "best_loss st' = foldl track_best None ?L" by (simp add: folded_def)
  from r(1,4) l len fo bl m lo up show ?thesis by blast
qed

theorem best_loss_within_epsilon_witness:
  "\<exists>s st st' l bl. init ex_defaults True False False = Inr s \<and>
     sgd_loop ex_slow 1 (sgd_start ex_slow s ''adam'' (1 / 1000)) = Inr st \<and>
     sgd_loop ex_slow (Suc 1) (sgd_start ex_slow s ''adam'' (1 / 1000)) = Inr st' \<and>
     losses (self st') = losses (self st) @ [l] \<and>
     length (losses (self st')) = Suc 1 \<and>
     best_loss st' = track_best (best_loss st) l \<and>
     best_loss st' = foldl track_best None (losses (self st')) \<and>
     best_loss st' = Some bl \<and> bl \<in> set (losses (self st')) \<and>
     Min (set (losses (self st'))) \<le> bl \<and>
     bl \<le> Min (set (losses (self st'))) + epsilon"
proof -
  obtain s :: "unit optimizer" where s: "init ex_defaults True False False = Inr s"
    using ex_init by blast
  from best_loss_within_epsilon [OF s, where ext = ex_slow and n = 1 and name = "''adam''"
      and lr = "1 / 1000"] s
  show ?thesis by blast
qed

subsection \<open>C6: a protein with an unknown residue\<close>

text \<open>
  C6. For a batch whose tensor of positions ends in the dimensions 37 and 3 and whose
  samples are some without \<^verbatim>\<open>X\<close>, then one with an \<^verbatim>\<open>X\<close> in its sequence, then some
  more without, and for options that do not make the sigmoid divide by zero,
  \<^verbatim>\<open>openmm_loss\<close> returns normally; the total energy and the total raw energy are the
  sums of the transformed and of the raw energies over the samples without \<^verbatim>\<open>X\<close> only,
  and the two lists of proteins hold those samples only.
\<close>

theorem unknown_residue_skipped:
  assumes "final_atom_positions_shape reps = sh @ [37, 3]"
    and "\<not> sigmoid_divides_by_zero opts"
    and "samples reps = xs @ [u] @ ys"
    and "CHR ''X'' \<in> set (sample_seq u)"
    and "\<forall>x\<in>set (xs @ ys). CHR ''X'' \<notin> set (sample_seq x)"
  shows "openmm_loss ext opts reps =
     Inr (\<Sum>x\<leftarrow>xs @ ys. transformed_energy opts (add_hydrogens ext (make_protein False x))
                         (openmm_energy ext (add_hydrogens ext (make_protein False x))),
          map (make_protein False) (xs @ ys),
          map (make_protein True) (xs @ ys),
          \<Sum>x\<leftarrow>xs @ ys. openmm_energy ext (add_hydrogens ext (make_protein False x)))"
proof -
  have "filter (\<lambda>x. CHR ''X'' \<notin> set (sample_seq x)) (samples reps) = xs @ ys"
    using assms(3,4,5) by (simp add: filter_id_conv)
  with openmm_loss_char [OF assms(1,2), of ext] show ?thesis by (simp add: Let_def)
qed

theorem unknown_residue_skipped_witness:
  "openmm_loss ex_loss_externals ex_options ex_reps =
     Inr (- 3 - 3 / 10 ^ 12,
          map (make_protein False) [ex_sample ''AG'', ex_sample ''G''],
          map (make_protein True) [ex_sample ''AG'', ex_sample ''G''],
          - 3)"
proof -
  have "final_atom_positions_shape ex_reps = [3, 3] @ [37, 3]"
    and "\<not> sigmoid_divides_by_zero ex_options"
    and "samples ex_reps = [ex_sample ''AG''] @ [ex_sample ''AXG''] @ [ex_sample ''G'']"
    and "CHR ''X'' \<in> set (sample_seq (ex_sample ''AXG''))"
    and "\<forall>x\<in>set ([ex_sample ''AG''] @ [ex_sample ''G'']). CHR ''X'' \<notin> set (sample_seq x)"
    by (simp_all add: ex_reps_def ex_sample_def sigmoid_divides_by_zero_def ex_options_def)
  from unknown_residue_skipped [OF this, of ex_loss_externals]
  show ?thesis
    by (simp add: transformed_energy_def spec_regularize_def spec_length_scale_def
        spec_squash_def ex_loss_externals_def ex_options_def add_hydrogens_def
        make_protein_def ex_sample_def)
qed

subsection \<open>C7: the order of the energy transforms\<close>

text \<open>
  C7, as stated, fails in its third step: the term that the regulariser adds is not
  positive when the energy is negative. For a protein of energy \<open>-1\<close> with only
  \<^verbatim>\<open>add_relu\<close> set, the transformed energy is \<open>-1 - 1e-12\<close>, below the raw energy
  \<open>-1\<close>.
\<close>

theorem regularizer_negative:
  "protein_loss ex_loss_externals ex_options (make_protein False (ex_sample ''A''))
   = Inr (- 1 - 1 / 10 ^ 12, - 1) \<and> - 1 - 1 / 10 ^ 12 < (- 1 :: real)"
  by (simp add: protein_loss_def ex_loss_externals_def ex_options_def make_protein_def
      ex_sample_def Let_def)

text \<open>
  C7, amended. Unless the sigmoid is requested with \<open>a = 0\<close>, in which case the division
  \<^verbatim>\<open>1/a\<close> fails, the transformed energy of a protein is obtained by (1) dividing by the
  residue count if length scaling is requested, (2) squashing if requested, (3) adding,
  if the regulariser is requested, \<open>1e-12\<close> times the energy as it was after step (1)
  and before step (2), whatever its sign; the raw energy is returned next to it.
\<close>

theorem protein_loss_composition:
  "protein_loss ext opts protein =
     (if sigmoid_divides_by_zero opts then Inl ZeroDivisionError
      else
        Inr (spec_regularize opts
               (spec_length_scale opts protein (openmm_energy ext protein))
               (spec_squash opts (spec_length_scale opts protein (openmm_energy ext protein))),
             openmm_energy ext protein))"
  by (cases "modified_sigmoid_params opts")
    (simp add: protein_loss_def sigmoid_divides_by_zero_def
      spec_regularize_def spec_length_scale_def spec_squash_def Let_def)

subsection \<open>C8: positions in the parameter list\<close>

text \<open>
  C8. The list of keys is the sublist of bond lengths, thetas, chis selected by the three
  flags, and the slots are the root atoms \<^verbatim>\<open>N\<close>, \<^verbatim>\<open>CA\<close>, \<^verbatim>\<open>C\<close> crossed with that
  list. If extraction succeeds, the list has one entry per slot; entry \<open>i\<close> is the tensor
  the store held at slot \<open>i\<close>, it requires gradient, and the store now holds it there. The
  scatter of any list \<open>qs\<close> of that length succeeds and writes entry \<open>i\<close> of \<open>qs\<close> at slot
  \<open>i\<close>: the entry itself for bond lengths, its sine and cosine for an angular key.
\<close>

theorem extraction_scatter_positional:
  assumes "create_param_list_from_build_params (init_keys a b c) bp = Inr (bp1, ps)"
    and "length qs = length ps"
  shows "init_keys a b c =
           filter (\<lambda>k. k = bond_lengths \<and> a \<or> k = thetas \<and> b \<or> k = chis \<and> c)
             [bond_lengths, thetas, chis] \<and>
         length ps = length (List.product [N, CA, C] (init_keys a b c)) \<and>
         (\<forall>i<length ps.
            ps ! i = extracted bp (List.product [N, CA, C] (init_keys a b c) ! i) \<and>
            requires_grad (ps ! i) \<and>
            bp1 (fst (List.product [N, CA, C] (init_keys a b c) ! i))
                (snd (List.product [N, CA, C] (init_keys a b c) ! i)) = Some (ps ! i)) \<and>
         (\<exists>bp2. update_complete_build_params_with_optimized_params (init_keys a b c) bp1 (Some qs)
                  = Inr bp2 \<and>
            (\<forall>i<length qs. written bp2 (List.product [N, CA, C] (init_keys a b c) ! i) (qs ! i)))"
proof -
  let ?ks = "init_keys a b c"
  have ps: "ps = map (extracted bp) (slots ?ks)" using assms(1) by (rule create_param_list_char(1))
  then have len: "length ps = length (slots ?ks)" by simp
  have ex: "ps ! i = extracted bp (slots ?ks ! i) \<and> requires_grad (ps ! i) \<and>
            bp1 (fst (slots ?ks ! i)) (snd (slots ?ks ! i)) = Some (ps ! i)" if "i < length ps" for i
  proof -
    from that len have i: "i < length (slots ?ks)" by simp
    then have e: "ps ! i = extracted bp (slots ?ks ! i)" by (simp add: ps)
    have "slots ?ks ! i \<in> set (slots ?ks)" using i by (rule nth_mem)
    from stored_extracted [OF assms(1) this] e show ?thesis by (simp add: requires_grad_extracted)
  qed
  have "length qs = length (slots ?ks)" using assms(2) len by simp
  from update_complete_written [OF selectable_init_keys this, of bp1] obtain bp2 where
    u: "update_complete_build_params_with_optimized_params ?ks bp1 (Some qs) = Inr bp2"
    and w: "list_all2 (written bp2) (slots ?ks) qs" by blast
  from w have "\<forall>i<length qs. written bp2 (slots ?ks ! i) (qs ! i)"
    by (simp add: list_all2_conv_all_nth)
  with u ex len show ?thesis unfolding slots_product [symmetric]
    by (intro conjI) (rule init_keys_filter, blast+)
qed

theorem extraction_scatter_positional_witness:
  "\<exists>bp1 ps bp2. create_param_list_from_build_params (init_keys True True True) ex_store = Inr (bp1, ps) \<and>
     length (replicate 9 (ex_tensor 2)) = length ps \<and>
     ps ! 4 = \<lparr>vals = [7], requires_grad = True\<rparr> \<and>
     bp1 CA thetas = Some (ps ! 4) \<and>
     update_complete_build_params_with_optimized_params (init_keys True True True) bp1
       (Some (replicate 9 (ex_tensor 2))) = Inr bp2 \<and>
     written bp2 (CA, thetas) (ex_tensor 2)"
proof -
  let ?qs = "replicate 9 (ex_tensor 2)"
  let ?sl = "List.product [N, CA, C] (init_keys True True True)"
  obtain bp1 ps where
    c: "create_param_list_from_build_params (init_keys True True True) ex_store = Inr (bp1, ps)"
    using ex_create by blast
  have "length ps = length (slots (init_keys True True True))"
    using create_param_list_char(1) [OF c] by simp
  then have l: "length ?qs = length ps" by (simp add: slots_def init_keys_def)
  have sl: "?sl ! 4 = (CA, thetas)" by (simp add: init_keys_def)
  from extraction_scatter_positional [OF c l] obtain bp2 where
    e: "\<forall>i<length ps. ps ! i = extracted ex_store (?sl ! i) \<and> requires_grad (ps ! i) \<and>
          bp1 (fst (?sl ! i)) (snd (?sl ! i)) = Some (ps ! i)"
    and u: "update_complete_build_params_with_optimized_params (init_keys True True True) bp1
              (Some ?qs) = Inr bp2"
    and w: "\<forall>i<length ?qs. written bp2 (?sl ! i) (?qs ! i)"
    by blast
  have i4: "4 < length ps" "4 < length ?qs" using l by simp_all
  from e [rule_format, OF i4(1)] have
    "ps ! 4 = \<lparr>vals = [7], requires_grad = True\<rparr>" "bp1 CA thetas = Some (ps ! 4)"
    unfolding sl
    by (simp_all add: extracted_def ex_store_def ex_defaults_def ex_tensor_def set_requires_grad_def)
  moreover from w [rule_format, OF i4(2)] have "written bp2 (CA, thetas) (ex_tensor 2)"
    unfolding sl by simp
  ultimately show ?thesis using c l u by blast
qed

subsection \<open>C9: the early-stopping counter\<close>

text \<open>
  C9. In the SGD/Adam loop started on a freshly constructed optimiser, whatever the
  collaborators return and whatever the step budget \<open>n\<close> is, the loop ends without an
  error with the counter at most \<open>patience\<close>, nothing was printed (the branch that prints
  ``Stopping early.'' and breaks was never taken), and exactly \<open>n\<close> losses were recorded:
  the loop ran the full budget. Since \<open>n\<close> is arbitrary this holds after every
  iteration.
\<close>

theorem early_stop_counter_saturates:
  assumes "init defaults a b c = Inr s"
  shows "\<exists>st. sgd_loop ext n (sgd_start ext s name lr) = Inr st \<and>
              counter st \<le> patience \<and> stdout st = [] \<and>
              length (losses (self st)) = n"
proof -
  have "sgd_inv (sgd_start ext s name lr)"
    using init_aligned [OF assms] by (rule sgd_start_inv)
  from sgd_loop_ok [OF this, of ext n] obtain st where
    "sgd_loop ext n (sgd_start ext s name lr) = Inr st" "sgd_inv st"
    "length (losses (self st)) = length (losses (self (sgd_start ext s name lr))) + n" by blast
  moreover have "losses (self (sgd_start ext s name lr)) = []"
    using assms by (auto elim: init_char simp: sgd_start_def)
  ultimately show ?thesis by (simp add: sgd_inv_def)
qed

theorem early_stop_counter_saturates_witness:
  "\<exists>s st. init ex_defaults True True True = Inr s \<and>
     sgd_loop ex_flat 50 (sgd_start ex_flat s ''adam'' (1 / 1000)) = Inr st \<and>
     counter st \<le> patience \<and> stdout st = [] \<and> length (losses (self st)) = 50"
proof -
  obtain s :: "unit optimizer" where s: "init ex_defaults True True True = Inr s"
    using ex_init by blast
  from early_stop_counter_saturates [OF s, of ex_flat 50 "''adam''" "1 / 1000"] s
  show ?thesis by blast
qed

subsection \<open>C10: strategies other than SGD and Adam\<close>

text \<open>
  C10, as stated for every input, fails: with no group selected the parameter list is
  empty, and \<^verbatim>\<open>optimize\<close> with \<^verbatim>\<open>'LBFGS'\<close> ends in the \<^verbatim>\<open>ValueError\<close> of the
  optimiser's constructor, before the loop.
\<close>

theorem optimize_lbfgs_empty_parameter_list:
  "run_optimize ex_flat ex_defaults False False False ''LBFGS'' (1 / 100000) 100
   = Inl ValueError"
  by (simp add: run_optimize_def optimize_def constructor_fails_def init_def init_keys_def
      create_param_list_from_build_params_def Let_def)

text \<open>
  C10, amended. On a constructed optimiser, \<^verbatim>\<open>optimize\<close> called with \<^verbatim>\<open>'LBFGS'\<close>, when
  at least one group is selected and the constructor of the optimiser does not refuse its
  arguments, or called with any name other than \<^verbatim>\<open>'LBFGS'\<close>, \<^verbatim>\<open>'SGD'\<close> and
  \<^verbatim>\<open>'adam'\<close>, gets through its loop and then fails with \<^verbatim>\<open>UnboundLocalError\<close>:
  \<^verbatim>\<open>best_params_so_far\<close> was never assigned. This holds for every table, every learning
  rate, every step budget and all collaborators.
\<close>

theorem optimize_lbfgs_unbound_local:
  fixes ext :: "'o externals" and s :: "'o optimizer"
  assumes "init defaults a b c = Inr s" and "name \<noteq> ''SGD''" and "name \<noteq> ''adam''"
    and "name = ''LBFGS'' \<longrightarrow> (a \<or> b \<or> c) \<and> \<not> refuses ext name lr (params s)"
  shows "optimize ext s name lr steps = Inl UnboundLocalError"
proof -
  have "name = ''LBFGS'' \<longrightarrow> \<not> constructor_fails ext name lr (params s)"
    using assms(4) params_nonempty [OF assms(1)] by (auto simp: constructor_fails_def)
  with init_aligned [OF assms(1)] assms(2,3) show ?thesis by (rule optimize_unbound)
qed

theorem optimize_lbfgs_unbound_local_witness:
  "''LBFGS'' \<noteq> ''SGD'' \<and> ''LBFGS'' \<noteq> ''adam'' \<and>
   (\<exists>s. init ex_defaults True True True = Inr s \<and>
        (True \<or> True \<or> True) \<and> \<not> refuses ex_flat ''LBFGS'' (1 / 10000) (params s) \<and>
        optimize ex_flat s ''LBFGS'' (1 / 10000) 1000 = Inl UnboundLocalError)"
proof -
  obtain s :: "unit optimizer" where s: "init ex_defaults True True True = Inr s"
    using ex_init by blast
  have n: "''LBFGS'' \<noteq> ''SGD''" "''LBFGS'' \<noteq> ''adam''" by simp_all
  have r: "''LBFGS'' = ''LBFGS'' \<longrightarrow>
           (True \<or> True \<or> True) \<and> \<not> refuses ex_flat ''LBFGS'' (1 / 10000) (params s)"
    by (simp add: ex_flat_def)
  from optimize_lbfgs_unbound_local [OF s n r, of 1000] s n r
  show ?thesis by blast
qed

end
